theory Spec2Isabelle
  imports Main
begin

section \<open>Time, rejections and promises\<close>

text \<open>
  The provisioner is asynchronous JavaScript: every collaborator call returns a promise,
  and the code is sequenced by \<open>await\<close>, \<open>then\<close> and \<open>Promise.all\<close>. The model
  keeps a logical clock in milliseconds. A promise is represented by its settlement: the time
  at which it settles and whether it resolves with a value (\<open>Inr\<close>) or rejects with an
  error (\<open>Inl\<close>). Every function of the provisioner takes the time at which it is
  invoked and returns its promise together with the collaborator calls it causes. Microtask
  hops take no time. Collaborator calls are assumed to settle after a finite duration, and
  to reject with an Error object. The methods of a WorkerType and the capacity query of the
  AWS manager are taken to return without throwing. The \<open>debug\<close> output is left out.
\<close>

type_synonym time = nat

datatype err = Err string

type_synonym 'a promise = "time \<times> (err + 'a)"

text \<open>
  What a collaborator answers when it is asked: how long the call takes and how it settles.
  The collaborators are functions of the time of the call (and of its arguments), so that
  two calls of the same operation may end differently.
\<close>

type_synonym 'a response = "nat \<times> (err + 'a)"

datatype retval = Undefined | Returned string

section \<open>Data of the provisioner\<close>

datatype lifecycle = Running | Pending | SpotReq

text \<open>
  A bid as \<open>spawn\<close> reads it: \<open>bid.region\<close>, \<open>bid.type\<close>, \<open>bid.zone\<close>. The prices
  of a bid are never read by the provisioner and are left out.
\<close>

record bid =
  region :: string
  type :: string
  zone :: string

record launchSpec =
  template :: string
  Placement :: "string option"

record launchInfo =
  launchSpec :: launchSpec
  securityToken :: string
  secrets :: string
  scopes :: "string list"

text \<open>The object handed to \<open>Secret.create\<close>.\<close>

record secret =
  token :: string
  secret_workerType :: string
  secret_secrets :: string
  secret_scopes :: "string list"
  expiration :: time

text \<open>
  A WorkerType entity: its name and the three methods the provisioner calls. The methods
  live outside the provisioner (the spec lists them as pure functions) and are taken as
  parameters. \<open>'p\<close> is the type of the pricing snapshot.
\<close>

record 'p workerType =
  workerType :: string
  determineCapacityChange :: "int \<Rightarrow> int \<Rightarrow> int \<Rightarrow> int"
  determineSpotBids :: "string list \<Rightarrow> 'p \<Rightarrow> int \<Rightarrow> bid list"
  createLaunchSpec :: "string \<Rightarrow> string \<Rightarrow> launchInfo"

text \<open>The record given to \<open>reportProvisioningIteration\<close>.\<close>

record iteration =
  it_provisionerId :: string
  it_workerType :: string
  it_pendingTasks :: int
  it_runningCapacity :: int
  it_pendingCapacity :: int
  it_change :: int

section \<open>Collaborator calls\<close>

datatype operation =
    LoadAll
  | AwsPricing
  | Update
  | RougeKiller "string list"
  | ZombieKiller
  | EnsureTags
  | CreateKeyPair string
  | PendingTasks string string
  | ReportProvisioningIteration iteration
  | SecretCreate secret
  | RequestSpotInstance launchInfo bid
  | Delay nat
  | KillCapacityOfWorkerType string int "lifecycle list"

text \<open>
  One call of a collaborator: what was called, when the call was made, when its promise
  settled, and the error it rejected with (\<open>None\<close> when it resolved).
\<close>

record call =
  what :: operation
  started :: time
  settled :: time
  rejection :: "err option"

text \<open>A promise together with the collaborator calls made on the way to it.\<close>

type_synonym 'a task = "'a promise \<times> call list"

text \<open>
  The collaborators of a Provisioner (the \<open>cfg\<close> of the constructor, and the
  \<open>awsPricing\<close> module). Each asynchronous operation answers with a response; the
  capacity query of the AWS manager is synchronous.
\<close>

record 'p collaborators =
  WorkerType_loadAll :: "time \<Rightarrow> ('p workerType list) response"
  awsPricing :: "time \<Rightarrow> 'p response"
  awsManager_update :: "time \<Rightarrow> unit response"
  awsManager_rougeKiller :: "time \<Rightarrow> string list \<Rightarrow> unit response"
  awsManager_zombieKiller :: "time \<Rightarrow> unit response"
  awsManager_ensureTags :: "time \<Rightarrow> unit response"
  awsManager_createKeyPair :: "time \<Rightarrow> string \<Rightarrow> unit response"
  awsManager_capacityForType :: "time \<Rightarrow> 'p workerType \<Rightarrow> lifecycle list \<Rightarrow> int"
  awsManager_requestSpotInstance :: "time \<Rightarrow> launchInfo \<Rightarrow> bid \<Rightarrow> retval response"
  awsManager_killCapacityOfWorkerType ::
    "time \<Rightarrow> 'p workerType \<Rightarrow> int \<Rightarrow> lifecycle list \<Rightarrow> retval response"
  awsManager_ec2_regions :: "string list"
  Secret_create :: "time \<Rightarrow> secret \<Rightarrow> unit response"
  queue_pendingTasks :: "time \<Rightarrow> string \<Rightarrow> string \<Rightarrow> int response"
  provisionerId :: string

text \<open>
  Calling a collaborator at time \<open>t\<close>: the promise it returns, and the call that is
  recorded.
\<close>

definition invoke :: "operation \<Rightarrow> time \<Rightarrow> 'a response \<Rightarrow> 'a task" where
  "invoke opn t r =
     ((t + fst r, snd r),
      [\<lparr>what = opn, started = t, settled = t + fst r,
        rejection = (case snd r of Inl e \<Rightarrow> Some e | Inr v \<Rightarrow> None)\<rparr>])"

section \<open>Promise combinators\<close>

definition Promise_resolve :: "time \<Rightarrow> 'a \<Rightarrow> 'a task" where
  "Promise_resolve t v = ((t, Inr v), [])"

text \<open>
  \<open>q.then(f)\<close>, and \<open>await q\<close> followed by the rest \<open>f\<close> of an async function with no
  handler around the await: when \<open>q\<close> resolves, \<open>f\<close> runs at that time on the value;
  when \<open>q\<close> rejects, \<open>f\<close> never runs and the rejection is passed on.
\<close>

definition thenP :: "'a task \<Rightarrow> (time \<Rightarrow> 'a \<Rightarrow> 'b task) \<Rightarrow> 'b task" where
  "thenP q f =
     (case snd (fst q) of
        Inl e \<Rightarrow> ((fst (fst q), Inl e), snd q)
      | Inr v \<Rightarrow> (let r = f (fst (fst q)) v in (fst r, snd q @ snd r)))"

text \<open>
  An element of the array given to \<open>Promise.all\<close>: a thenable, to which \<open>Promise.all\<close>
  subscribes, or any other value, which counts as resolved at once.
\<close>

datatype 'a element = Thenable "'a promise" | Plain 'a

primrec subscribe :: "time \<Rightarrow> 'a element \<Rightarrow> 'a promise" where
  "subscribe t (Thenable p) = p"
| "subscribe t (Plain v) = (t, Inr v)"

text \<open>
  \<open>Promise.all\<close>, called at time \<open>t\<close>: it rejects as soon as the first element rejects,
  with that element's error (of several rejecting at the same time, the first in the array),
  and otherwise resolves with the array of values once the last element has resolved.
\<close>

definition Promise_all :: "time \<Rightarrow> 'a element list \<Rightarrow> 'a list promise" where
  "Promise_all t es =
     (let ps = map (subscribe t) es in
      case filter (\<lambda>p. isl (snd p)) ps of
        [] \<Rightarrow> (foldr max (map fst ps) t, Inr (map (\<lambda>p. projr (snd p)) ps))
      | r # rs \<Rightarrow> (let f = arg_min_list fst (r # rs) in (fst f, Inl (projl (snd f)))))"

text \<open>
  Modelled from the spec: \<open>lib/delayer\<close> is not among the sources. \<open>delayer(ms)\<close>
  returns an operation that suspends for \<open>ms\<close> milliseconds and then resolves with the
  value it was given.
\<close>

definition delayer :: "nat \<Rightarrow> time \<Rightarrow> 'a \<Rightarrow> 'a task" where
  "delayer ms t v = invoke (Delay ms) t (ms, Inr v)"

section \<open>spawn\<close>

text \<open>\<open>taskcluster.fromNow('40 minutes')\<close>, in milliseconds after the call.\<close>

definition fromNow_40_minutes :: "time \<Rightarrow> time" where
  "fromNow_40_minutes t = t + 40 * 60 * 1000"

text \<open>
  The launch information of \<open>spawn\<close>: what \<open>createLaunchSpec\<close> returns for the bid's
  region and type, with the placement overlaid from the bid's zone.
\<close>

definition spawn_launchInfo :: "'p workerType \<Rightarrow> bid \<Rightarrow> launchInfo" where
  "spawn_launchInfo wt b =
     (let launchInfo = createLaunchSpec wt (region b) (type b)
      in launchInfo\<lparr>launchSpec := (launchSpec launchInfo)\<lparr>Placement := Some (zone b)\<rparr>\<rparr>)"

text \<open>The object \<open>spawn\<close> hands to \<open>Secret.create\<close> at time \<open>t\<close>.\<close>

definition spawn_secret :: "'p workerType \<Rightarrow> bid \<Rightarrow> time \<Rightarrow> secret" where
  "spawn_secret wt b t =
     (let launchInfo = spawn_launchInfo wt b
      in \<lparr>token = securityToken launchInfo, secret_workerType = workerType wt,
          secret_secrets = secrets launchInfo, secret_scopes = scopes launchInfo,
          expiration = fromNow_40_minutes t\<rparr>)"

text \<open>
  \<open>Provisioner.prototype.spawn\<close>: build the launch information, await
  \<open>Secret.create\<close>, and only then call \<open>requestSpotInstance\<close>, whose promise is
  returned. A rejected \<open>Secret.create\<close> makes the await throw, which rejects spawn.
\<close>

definition spawn :: "'p collaborators \<Rightarrow> 'p workerType \<Rightarrow> bid \<Rightarrow> time \<Rightarrow> retval task" where
  "spawn c wt b t =
     thenP (invoke (SecretCreate (spawn_secret wt b t)) t (Secret_create c t (spawn_secret wt b t)))
       (\<lambda>t1 u. invoke (RequestSpotInstance (spawn_launchInfo wt b) b) t1
                 (awsManager_requestSpotInstance c t1 (spawn_launchInfo wt b) b))"

section \<open>provisionType\<close>

text \<open>
  The loop over the bids: \<open>bids.forEach(bid => { q = q.then(() => this.spawn(workerType,
  bid)).then(d) })\<close> with \<open>d = delayer(500)\<close>.
\<close>

definition bids_forEach ::
  "'p collaborators \<Rightarrow> 'p workerType \<Rightarrow> retval task \<Rightarrow> bid list \<Rightarrow> retval task" where
  "bids_forEach c wt q bids =
     foldl (\<lambda>q bid. thenP (thenP q (\<lambda>t v. spawn c wt bid t)) (delayer 500)) q bids"

text \<open>
  \<open>Provisioner.prototype.provisionType\<close>, invoked at time \<open>t\<close>. The pending-task
  count is awaited first; the two capacity queries, the capacity change and the iteration
  report are synchronous and happen when it has resolved.
\<close>

definition provisionType ::
  "'p collaborators \<Rightarrow> 'p workerType \<Rightarrow> 'p \<Rightarrow> time \<Rightarrow> retval task" where
  "provisionType c wt pricing t =
     thenP (invoke (PendingTasks (provisionerId c) (workerType wt)) t
              (queue_pendingTasks c t (provisionerId c) (workerType wt)))
       (\<lambda>t1 pendingTasks.
          let runningCapacity = awsManager_capacityForType c t1 wt [Running];
              pendingCapacity = awsManager_capacityForType c t1 wt [Pending, SpotReq];
              change = determineCapacityChange wt runningCapacity pendingCapacity pendingTasks
          in thenP (invoke (ReportProvisioningIteration
                      \<lparr>it_provisionerId = provisionerId c, it_workerType = workerType wt,
                       it_pendingTasks = pendingTasks, it_runningCapacity = runningCapacity,
                       it_pendingCapacity = pendingCapacity, it_change = change\<rparr>) t1 (0, Inr ()))
               (\<lambda>t2 u.
                  if change > 0 then
                    bids_forEach c wt (Promise_resolve t2 Undefined)
                      (determineSpotBids wt (awsManager_ec2_regions c) pricing change)
                  else if change < 0 then
                    (let capacityToKill = - change
                     in invoke (KillCapacityOfWorkerType (workerType wt) capacityToKill
                                  [Pending, SpotReq]) t2
                          (awsManager_killCapacityOfWorkerType c t2 wt capacityToKill
                             [Pending, SpotReq]))
                  else Promise_resolve t2 Undefined))"

section \<open>runAllProvisionersOnce\<close>

text \<open>The values of the first \<open>Promise.all\<close>: \<open>res[0]\<close>, \<open>res[1]\<close>, \<open>res[2]\<close>.\<close>

datatype 'p fetched = WorkerTypes "'p workerType list" | Pricing 'p | Updated

definition promise_map :: "('a \<Rightarrow> 'b) \<Rightarrow> 'a promise \<Rightarrow> 'b promise" where
  "promise_map f p = (fst p, map_sum id f (snd p))"

text \<open>
  The first await: the pool definitions, the pricing snapshot and the refresh of the AWS
  manager are requested together and joined by \<open>Promise.all\<close>.
\<close>

definition fetchAll :: "'p collaborators \<Rightarrow> time \<Rightarrow> 'p fetched list task" where
  "fetchAll c t =
     (let l = invoke LoadAll t (WorkerType_loadAll c t);
          p = invoke AwsPricing t (awsPricing c t);
          u = invoke Update t (awsManager_update c t)
      in (Promise_all t
            [Thenable (promise_map WorkerTypes (fst l)),
             Thenable (promise_map Pricing (fst p)),
             Thenable (promise_map (\<lambda>x. Updated) (fst u))],
          snd l @ snd p @ snd u))"

text \<open>
  The values in the array of the second \<open>Promise.all\<close>: what a maintenance promise
  resolves with, and the array that \<open>workerNames.map\<close> returns, which holds the promises of
  the \<open>createKeyPair\<close> calls.
\<close>

datatype maintained = Finished | KeyPairs "unit promise list"

text \<open>
  The second await. The array given to \<open>Promise.all\<close> has four elements: the promises of
  \<open>rougeKiller\<close>, \<open>zombieKiller\<close> and \<open>ensureTags\<close>, and, as its fourth element, the
  array returned by \<open>workerNames.map\<close>. That array is not a thenable: \<open>Promise.all\<close>
  takes it as a value and does not subscribe to the promises inside it.
\<close>

definition maintenance :: "'p collaborators \<Rightarrow> string list \<Rightarrow> time \<Rightarrow> maintained list task" where
  "maintenance c workerNames t =
     (let r = invoke (RougeKiller workerNames) t (awsManager_rougeKiller c t workerNames);
          z = invoke ZombieKiller t (awsManager_zombieKiller c t);
          e = invoke EnsureTags t (awsManager_ensureTags c t);
          ks = map (\<lambda>name. invoke (CreateKeyPair name) t (awsManager_createKeyPair c t name))
                 workerNames
      in (Promise_all t
            [Thenable (promise_map (\<lambda>x. Finished) (fst r)),
             Thenable (promise_map (\<lambda>x. Finished) (fst z)),
             Thenable (promise_map (\<lambda>x. Finished) (fst e)),
             Plain (KeyPairs (map fst ks))],
          snd r @ snd z @ snd e @ concat (map snd ks)))"

text \<open>
  The fan-out: \<open>Promise.all(workerTypes.map(async worker => this.provisionType(worker,
  pricing)))\<close>. Every \<open>provisionType\<close> is invoked when the array is built; the calls of
  the pools are listed pool by pool, and their times say how they interleave.
\<close>

definition provisionAll ::
  "'p collaborators \<Rightarrow> 'p workerType list \<Rightarrow> 'p \<Rightarrow> time \<Rightarrow> retval list task" where
  "provisionAll c workerTypes pricing t =
     (let ps = map (\<lambda>worker. provisionType c worker pricing t) workerTypes
      in (Promise_all t (map (\<lambda>p. Thenable (fst p)) ps), concat (map snd ps)))"

text \<open>
  \<open>Provisioner.prototype.runAllProvisionersOnce\<close>. An array \<open>res\<close> of another shape
  than the one \<open>fetchAll\<close> resolves with cannot occur; JavaScript would throw a TypeError
  on it.
\<close>

definition runAllProvisionersOnce :: "'p collaborators \<Rightarrow> time \<Rightarrow> retval list task" where
  "runAllProvisionersOnce c t =
     thenP (fetchAll c t)
       (\<lambda>t1 res.
          case res of
            [WorkerTypes workerTypes, Pricing pricing, Updated] \<Rightarrow>
              thenP (maintenance c (map workerType workerTypes) t1)
                (\<lambda>t2 m. provisionAll c workerTypes pricing t2)
          | _ \<Rightarrow> ((t1, Inl (Err ''TypeError'')), []))"

section \<open>The Watchdog\<close>

text \<open>
  Modelled from the spec: \<open>lib/watchdog\<close> is not among the sources. A Watchdog is made
  with a maximum silence; \<open>start\<close> and \<open>stop\<close> switch the monitoring of expiry on and
  off, \<open>touch\<close> resets the countdown, and \<open>on('expired', h)\<close> registers one more
  handler of its expiry.
\<close>

record watchDog =
  maxTime :: nat
  monitoring :: bool
  lastTouch :: time
  expiredHandlers :: nat

definition WatchDog :: "nat \<Rightarrow> watchDog" where
  "WatchDog m = \<lparr>maxTime = m, monitoring = False, lastTouch = 0, expiredHandlers = 0\<rparr>"

definition watchDog_on_expired :: "watchDog \<Rightarrow> watchDog" where
  "watchDog_on_expired w = w\<lparr>expiredHandlers := expiredHandlers w + 1\<rparr>"

definition watchDog_start :: "time \<Rightarrow> watchDog \<Rightarrow> watchDog" where
  "watchDog_start t w = w\<lparr>monitoring := True, lastTouch := t\<rparr>"

definition watchDog_touch :: "time \<Rightarrow> watchDog \<Rightarrow> watchDog" where
  "watchDog_touch t w = w\<lparr>lastTouch := t\<rparr>"

definition watchDog_stop :: "watchDog \<Rightarrow> watchDog" where
  "watchDog_stop w = w\<lparr>monitoring := False\<rparr>"

definition watchDog_expired :: "time \<Rightarrow> watchDog \<Rightarrow> bool" where
  "watchDog_expired t w = (monitoring w \<and> lastTouch w + maxTime w \<le> t)"

section \<open>The control loop\<close>

definition MAX_PROVISION_ITERATION :: nat where
  "MAX_PROVISION_ITERATION = 1000 * 60 * 10"

definition MAX_KILL_TIME :: nat where
  "MAX_KILL_TIME = 1000 * 30"

definition MAX_FAILURES :: nat where
  "MAX_FAILURES = 15"

text \<open>The fields of a Provisioner that the control loop reads and writes.\<close>

record provisioner =
  provisionIterationInterval :: nat
  provRunId :: nat
  keepRunning :: bool
  watchDog :: watchDog
  runs :: nat
  consecFail :: nat

text \<open>The constructor.\<close>

definition Provisioner :: "nat \<Rightarrow> provisioner" where
  "Provisioner interval =
     \<lparr>provisionIterationInterval = interval, provRunId = 0, keepRunning = False,
      watchDog = WatchDog MAX_PROVISION_ITERATION, runs = 0, consecFail = 0\<rparr>"

text \<open>
  \<open>exitTimer(time)\<close> schedules \<open>process.exit(44)\<close> after \<open>time || 30000\<close>
  milliseconds; the value is the delay of the timer it schedules.
\<close>

definition exitTimer :: "nat \<Rightarrow> nat" where
  "exitTimer time = (if time = 0 then 30000 else time)"

text \<open>
  Where an invocation of \<open>run()\<close> stands: suspended at the await of the sweep, suspended
  at the await of the delay, or finished (its promise resolved or rejected).
\<close>

datatype suspension = AwaitSweep | AwaitDelay | RunResolved | RunRejected err

text \<open>
  The process: the Provisioner object, every invocation of \<open>run()\<close> made so far, and what
  the loop has done to the outside: the number of sweeps it has started and the hard-exit
  timers it has scheduled. \<open>PROVISION_ONCE\<close> is the environment variable.
\<close>

record process =
  self :: provisioner
  invocations :: "suspension list"
  sweeps :: nat
  exitTimers :: "nat list"
  PROVISION_ONCE :: bool

definition boot :: "nat \<Rightarrow> bool \<Rightarrow> process" where
  "boot interval once =
     \<lparr>self = Provisioner interval, invocations = [], sweeps = 0, exitTimers = [],
      PROVISION_ONCE = once\<rparr>"

text \<open>
  The head of an iteration of the \<open>do\<close> loop, up to the await of the sweep: touch the
  Watchdog, check the consecutive failures, count the run, start the sweep. The error
  thrown when the check fails is caught by the outer handler of \<open>run()\<close>, which schedules
  a second exit timer and throws it again, so that \<open>run()\<close> rejects.
\<close>

definition iterate :: "time \<Rightarrow> process \<Rightarrow> process \<times> suspension" where
  "iterate t pr =
     (let p = (self pr)\<lparr>watchDog := watchDog_touch t (watchDog (self pr))\<rparr>
      in if consecFail p > MAX_FAILURES then
           (pr\<lparr>self := p,
               exitTimers := exitTimers pr @ [exitTimer MAX_KILL_TIME, exitTimer MAX_KILL_TIME]\<rparr>,
            RunRejected (Err ''provisioner is failing a lot''))
         else
           (pr\<lparr>self := p\<lparr>runs := runs p + 1\<rparr>, sweeps := sweeps pr + 1\<rparr>, AwaitSweep))"

text \<open>
  \<open>Provisioner.prototype.run\<close>, called at time \<open>t\<close>, up to its first await: set the
  flag, register the expiry handler, start the Watchdog, and enter the loop.
\<close>

definition run :: "time \<Rightarrow> process \<Rightarrow> process" where
  "run t pr =
     (let p = (self pr)\<lparr>keepRunning := True,
                        watchDog := watchDog_start t (watchDog_on_expired (watchDog (self pr)))\<rparr>;
          (pr', s) = iterate t (pr\<lparr>self := p\<rparr>)
      in pr'\<lparr>invocations := invocations pr' @ [s]\<rparr>)"

text \<open>\<open>Provisioner.prototype.stop\<close>.\<close>

definition stop :: "provisioner \<Rightarrow> provisioner" where
  "stop p = p\<lparr>keepRunning := False, watchDog := watchDog_stop (watchDog p),
             runs := 0, consecFail := 0\<rparr>"

text \<open>
  The sweep awaited by invocation \<open>i\<close> of \<open>run()\<close> settles with \<open>r\<close>: the inner
  \<open>try\<close> sets the counter to zero, the \<open>catch\<close> increments it; then the delay is
  awaited.
\<close>

definition sweepSettles :: "nat \<Rightarrow> err + 'a \<Rightarrow> process \<Rightarrow> process" where
  "sweepSettles i r pr =
     (if i < length (invocations pr) \<and> invocations pr ! i = AwaitSweep then
        pr\<lparr>self := (case r of
                       Inr v \<Rightarrow> (self pr)\<lparr>consecFail := 0\<rparr>
                     | Inl e \<Rightarrow> (self pr)\<lparr>consecFail := consecFail (self pr) + 1\<rparr>),
           invocations := (invocations pr)[i := AwaitDelay]\<rparr>
      else pr)"

text \<open>
  The delay awaited by invocation \<open>i\<close> has elapsed, at time \<open>t\<close>: the loop condition
  \<open>this.__keepRunning && !process.env.PROVISION_ONCE\<close> decides between another iteration
  and the end of \<open>run()\<close>.
\<close>

definition delayElapses :: "nat \<Rightarrow> time \<Rightarrow> process \<Rightarrow> process" where
  "delayElapses i t pr =
     (if i < length (invocations pr) \<and> invocations pr ! i = AwaitDelay then
        if keepRunning (self pr) \<and> \<not> PROVISION_ONCE pr then
          (let (pr', s) = iterate t pr in pr'\<lparr>invocations := (invocations pr')[i := s]\<rparr>)
        else pr\<lparr>invocations := (invocations pr)[i := RunResolved]\<rparr>
      else pr)"

text \<open>
  What happens to the process, one event at a time: a call of \<open>run()\<close> or of \<open>stop()\<close>, a
  sweep settling, a delay elapsing.
\<close>

datatype event =
    CallRun time
  | CallStop
  | SweepSettles nat "err + retval list"
  | DelayElapses nat time

fun step :: "process \<Rightarrow> event \<Rightarrow> process" where
  "step pr (CallRun t) = run t pr"
| "step pr CallStop = pr\<lparr>self := stop (self pr)\<rparr>"
| "step pr (SweepSettles i r) = sweepSettles i r pr"
| "step pr (DelayElapses i t) = delayElapses i t pr"

definition exec :: "process \<Rightarrow> event list \<Rightarrow> process" where
  "exec pr evs = foldl step pr evs"

text \<open>
  The sweep that invocation \<open>i\<close> of \<open>run()\<close> started at time \<open>t\<close> settles: the
  event carries the outcome of \<open>runAllProvisionersOnce\<close>.
\<close>

definition sweepEvent :: "'p collaborators \<Rightarrow> nat \<Rightarrow> time \<Rightarrow> event" where
  "sweepEvent c i t = SweepSettles i (snd (fst (runAllProvisionersOnce c t)))"

text \<open>The invocations of \<open>run()\<close> that have not finished.\<close>

definition inFlight :: "process \<Rightarrow> suspension list" where
  "inFlight pr = filter (\<lambda>s. s = AwaitSweep \<or> s = AwaitDelay) (invocations pr)"

section \<open>Reading the calls\<close>

fun isSecretCreate :: "operation \<Rightarrow> bool" where
  "isSecretCreate (SecretCreate s) = True"
| "isSecretCreate _ = False"

fun isRequestSpotInstance :: "operation \<Rightarrow> bool" where
  "isRequestSpotInstance (RequestSpotInstance li b) = True"
| "isRequestSpotInstance _ = False"

fun isKill :: "operation \<Rightarrow> bool" where
  "isKill (KillCapacityOfWorkerType n k ls) = True"
| "isKill _ = False"

fun isReport :: "operation \<Rightarrow> bool" where
  "isReport (ReportProvisioningIteration r) = True"
| "isReport _ = False"

fun isMaintenance :: "operation \<Rightarrow> bool" where
  "isMaintenance (RougeKiller ns) = True"
| "isMaintenance ZombieKiller = True"
| "isMaintenance EnsureTags = True"
| "isMaintenance (CreateKeyPair n) = True"
| "isMaintenance _ = False"

fun isCreateKeyPair :: "operation \<Rightarrow> bool" where
  "isCreateKeyPair (CreateKeyPair n) = True"
| "isCreateKeyPair _ = False"

text \<open>The provisioning requests, the termination requests and the reports among calls.\<close>

definition requests :: "call list \<Rightarrow> call list" where
  "requests cs = filter (\<lambda>x. isRequestSpotInstance (what x)) cs"

definition kills :: "call list \<Rightarrow> call list" where
  "kills cs = filter (\<lambda>x. isKill (what x)) cs"

definition reports :: "call list \<Rightarrow> call list" where
  "reports cs = filter (\<lambda>x. isReport (what x)) cs"

text \<open>
  \<open>chained t cs t'\<close>: the calls \<open>cs\<close> are made one after another from time \<open>t\<close> to
  time \<open>t'\<close>, each when the one before it has settled.
\<close>

fun chained :: "time \<Rightarrow> call list \<Rightarrow> time \<Rightarrow> bool" where
  "chained t [] t' = (t' = t)"
| "chained t (x # xs) t' = (started x = t \<and> started x \<le> settled x \<and> chained (settled x) xs t')"

text \<open>
  A task started at \<open>t\<close> is sequential when its calls are chained up to the time its
  promise settles, only its last call may have been rejected, and its promise rejects
  exactly with the error of that call.
\<close>

definition sequential :: "time \<Rightarrow> 'a task \<Rightarrow> bool" where
  "sequential t q =
     (chained t (snd q) (fst (fst q)) \<and>
      (\<forall>x \<in> set (butlast (snd q)). rejection x = None) \<and>
      (case snd (fst q) of
         Inr v \<Rightarrow> (\<forall>x \<in> set (snd q). rejection x = None)
       | Inl e \<Rightarrow> snd q \<noteq> [] \<and> rejection (last (snd q)) = Some e))"

text \<open>The capacity and the lifecycle states that a termination request names.\<close>

fun killCapacity :: "operation \<Rightarrow> int" where
  "killCapacity (KillCapacityOfWorkerType n k ls) = k"
| "killCapacity _ = 0"

fun killStates :: "operation \<Rightarrow> lifecycle list" where
  "killStates (KillCapacityOfWorkerType n k ls) = ls"
| "killStates _ = []"

text \<open>
  The spawns attempted: every \<open>spawn\<close> begins with its call of \<open>Secret.create\<close>.
\<close>

definition attempts :: "call list \<Rightarrow> call list" where
  "attempts cs = filter (\<lambda>x. isSecretCreate (what x)) cs"

text \<open>The provisioning request that \<open>spawn\<close> submits for a bid.\<close>

definition request_for :: "'p workerType \<Rightarrow> bid \<Rightarrow> operation" where
  "request_for wt b = RequestSpotInstance (spawn_launchInfo wt b) b"

text \<open>
  \<open>paced cs\<close>: every provisioning request among the calls is directly followed by a delay
  of 500 milliseconds, unless it is the last call and was rejected.
\<close>

fun paced :: "call list \<Rightarrow> bool" where
  "paced [] = True"
| "paced [x] = (isRequestSpotInstance (what x) \<longrightarrow> rejection x \<noteq> None)"
| "paced (x # y # zs) =
     ((isRequestSpotInstance (what x) \<longrightarrow> what y = Delay 500 \<and> settled y = started y + 500)
      \<and> paced (y # zs))"

text \<open>
  The capacity change that \<open>provisionType\<close> computes when the pending-task count \<open>n\<close>
  arrives at time \<open>t\<close>, the record it reports, and its first two calls: the pending-task
  query, made at \<open>t\<close> and resolved after \<open>d\<close> milliseconds, and the report.
\<close>

definition change_at :: "'p collaborators \<Rightarrow> 'p workerType \<Rightarrow> time \<Rightarrow> int \<Rightarrow> int" where
  "change_at c wt t n =
     determineCapacityChange wt (awsManager_capacityForType c t wt [Running])
       (awsManager_capacityForType c t wt [Pending, SpotReq]) n"

definition iteration_at :: "'p collaborators \<Rightarrow> 'p workerType \<Rightarrow> time \<Rightarrow> int \<Rightarrow> iteration" where
  "iteration_at c wt t n =
     \<lparr>it_provisionerId = provisionerId c, it_workerType = workerType wt, it_pendingTasks = n,
      it_runningCapacity = awsManager_capacityForType c t wt [Running],
      it_pendingCapacity = awsManager_capacityForType c t wt [Pending, SpotReq],
      it_change = change_at c wt t n\<rparr>"

definition head_calls ::
  "'p collaborators \<Rightarrow> 'p workerType \<Rightarrow> time \<Rightarrow> nat \<Rightarrow> int \<Rightarrow> call list" where
  "head_calls c wt t d n =
     [\<lparr>what = PendingTasks (provisionerId c) (workerType wt), started = t, settled = t + d,
       rejection = None\<rparr>,
      \<lparr>what = ReportProvisioningIteration (iteration_at c wt (t + d) n), started = t + d,
       settled = t + d, rejection = None\<rparr>]"

text \<open>
  The bids that \<open>provisionType\<close> asks the bid resolver for when the pending-task count
  \<open>n\<close> arrives at time \<open>t\<close>.
\<close>

definition bids_at :: "'p collaborators \<Rightarrow> 'p workerType \<Rightarrow> 'p \<Rightarrow> time \<Rightarrow> int \<Rightarrow> bid list" where
  "bids_at c wt pricing t n =
     determineSpotBids wt (awsManager_ec2_regions c) pricing (change_at c wt t n)"

text \<open>
  The spec's reading of the promise chain (its design notes): submit, await completion,
  await the fixed delay, repeat; stop at the first submission that fails. It is compared
  with \<open>bids_forEach\<close> below.
\<close>

fun submit_await_delay_repeat ::
  "'p collaborators \<Rightarrow> 'p workerType \<Rightarrow> bid list \<Rightarrow> time \<Rightarrow> retval \<Rightarrow> retval task" where
  "submit_await_delay_repeat c wt [] t v = ((t, Inr v), [])"
| "submit_await_delay_repeat c wt (b # bs) t v =
     (case snd (fst (spawn c wt b t)) of
        Inl e \<Rightarrow> spawn c wt b t
      | Inr v' \<Rightarrow>
          (let t' = fst (fst (spawn c wt b t));
               r = submit_await_delay_repeat c wt bs (t' + 500) v'
           in (fst r,
               snd (spawn c wt b t)
               @ \<lparr>what = Delay 500, started = t', settled = t' + 500, rejection = None\<rparr>
               # snd r)))"

text \<open>The calls of the fleet-wide maintenance among calls.\<close>

definition maintenance_calls :: "call list \<Rightarrow> call list" where
  "maintenance_calls cs = filter (\<lambda>x. isMaintenance (what x)) cs"

text \<open>
  The calls that \<open>maintenance\<close> makes at time \<open>t\<close>, and the promise that a call stands
  for in the array given to \<open>Promise.all\<close>.
\<close>

definition rougeKiller_call :: "'p collaborators \<Rightarrow> string list \<Rightarrow> time \<Rightarrow> call" where
  "rougeKiller_call c names t = hd (snd (invoke (RougeKiller names) t (awsManager_rougeKiller c t names)))"

definition zombieKiller_call :: "'p collaborators \<Rightarrow> time \<Rightarrow> call" where
  "zombieKiller_call c t = hd (snd (invoke ZombieKiller t (awsManager_zombieKiller c t)))"

definition ensureTags_call :: "'p collaborators \<Rightarrow> time \<Rightarrow> call" where
  "ensureTags_call c t = hd (snd (invoke EnsureTags t (awsManager_ensureTags c t)))"

definition createKeyPair_call :: "'p collaborators \<Rightarrow> time \<Rightarrow> string \<Rightarrow> call" where
  "createKeyPair_call c t name =
     hd (snd (invoke (CreateKeyPair name) t (awsManager_createKeyPair c t name)))"

definition promise_of_call :: "call \<Rightarrow> maintained promise" where
  "promise_of_call x = (settled x, case rejection x of None \<Rightarrow> Inr Finished | Some e \<Rightarrow> Inl e)"

section \<open>Example collaborators\<close>

definition example_launchInfo :: "string \<Rightarrow> string \<Rightarrow> launchInfo" where
  "example_launchInfo r ty =
     \<lparr>launchSpec = \<lparr>template = ty, Placement = None\<rparr>, securityToken = ''token-'' @ r,
      secrets = ''secret'', scopes = [''scope'']\<rparr>"

text \<open>
  A pool whose policy asks for the backlog minus the capacity at hand, and whose bid
  resolver returns the first \<open>change\<close> of the given bids.
\<close>

definition pool :: "string \<Rightarrow> bid list \<Rightarrow> unit workerType" where
  "pool name bids =
     \<lparr>workerType = name,
      determineCapacityChange = (\<lambda>running pending tasks. tasks - (running + pending)),
      determineSpotBids = (\<lambda>regions pricing change. take (nat change) bids),
      createLaunchSpec = example_launchInfo\<rparr>"

definition bid_a :: bid where
  "bid_a = \<lparr>region = ''us-west-2'', type = ''m3.large'', zone = ''us-west-2a''\<rparr>"

definition bid_b :: bid where
  "bid_b = \<lparr>region = ''us-west-2'', type = ''m3.large'', zone = ''us-west-2b''\<rparr>"

text \<open>
  Collaborators that always succeed, each call taking one millisecond: the given pools,
  no capacity at hand, and the given backlog in every queue.
\<close>

definition calm :: "unit workerType list \<Rightarrow> int \<Rightarrow> unit collaborators" where
  "calm pools backlog =
     \<lparr>WorkerType_loadAll = (\<lambda>t. (1, Inr pools)),
      awsPricing = (\<lambda>t. (1, Inr ())),
      awsManager_update = (\<lambda>t. (1, Inr ())),
      awsManager_rougeKiller = (\<lambda>t ns. (1, Inr ())),
      awsManager_zombieKiller = (\<lambda>t. (1, Inr ())),
      awsManager_ensureTags = (\<lambda>t. (1, Inr ())),
      awsManager_createKeyPair = (\<lambda>t n. (1, Inr ())),
      awsManager_capacityForType = (\<lambda>t w ls. 0),
      awsManager_requestSpotInstance = (\<lambda>t li b. (1, Inr (Returned ''sir''))),
      awsManager_killCapacityOfWorkerType = (\<lambda>t w k ls. (1, Inr (Returned ''killed''))),
      awsManager_ec2_regions = [''us-west-2''],
      Secret_create = (\<lambda>t s. (1, Inr ())),
      queue_pendingTasks = (\<lambda>t p w. (1, Inr backlog)),
      provisionerId = ''aws-provisioner''\<rparr>"

text \<open>Variations: one collaborator fails, or there is capacity at hand.\<close>

definition secret_store_down :: "unit workerType list \<Rightarrow> int \<Rightarrow> unit collaborators" where
  "secret_store_down pools backlog =
     (calm pools backlog)\<lparr>Secret_create := \<lambda>t s. (1, Inl (Err ''store down''))\<rparr>"

definition zone_b_full :: "unit workerType list \<Rightarrow> int \<Rightarrow> unit collaborators" where
  "zone_b_full pools backlog =
     (calm pools backlog)\<lparr>awsManager_requestSpotInstance :=
        \<lambda>t li b. if zone b = ''us-west-2b'' then (1, Inl (Err ''capacity''))
                  else (1, Inr (Returned ''sir''))\<rparr>"

definition queue_down :: "unit workerType list \<Rightarrow> unit collaborators" where
  "queue_down pools =
     (calm pools 0)\<lparr>queue_pendingTasks := \<lambda>t p w. (3, Inl (Err ''queue down''))\<rparr>"

definition overprovisioned :: "unit workerType list \<Rightarrow> unit collaborators" where
  "overprovisioned pools =
     (calm pools 0)\<lparr>awsManager_capacityForType :=
        \<lambda>t w ls. if ls = [Running] then 10 else 5\<rparr>"

definition pool_ab :: "unit workerType" where
  "pool_ab = pool ''a'' [bid_a, bid_b]"

definition pool_aba :: "unit workerType" where
  "pool_aba = pool ''a'' [bid_a, bid_b, bid_a]"

definition rogue_down :: "unit workerType list \<Rightarrow> unit collaborators" where
  "rogue_down pools =
     (calm pools 0)\<lparr>awsManager_rougeKiller := \<lambda>t ns. (1, Inl (Err ''rogue'')),
                     awsManager_zombieKiller := \<lambda>t. (100, Inr ())\<rparr>"

definition keypair_down :: "unit workerType list \<Rightarrow> unit collaborators" where
  "keypair_down pools =
     (calm pools 0)\<lparr>awsManager_createKeyPair := \<lambda>t n. (1000, Inl (Err ''key pair''))\<rparr>"

definition queue_a_down :: "unit workerType list \<Rightarrow> unit collaborators" where
  "queue_a_down pools =
     (calm pools 1)\<lparr>queue_pendingTasks :=
        \<lambda>t p w. if w = ''a'' then (3, Inl (Err ''queue down'')) else (1, Inr 1)\<rparr>"

definition pools_ab :: "unit workerType list" where
  "pools_ab = [pool ''a'' [bid_a], pool ''b'' [bid_b]]"

text \<open>
  The process after \<open>run()\<close>, called at time 0 on a fresh Provisioner, and \<open>k\<close> sweeps
  that failed one after another, each followed by the delay: the next sweep is awaited.
\<close>

definition looping :: "nat \<Rightarrow> process" where
  "looping k =
     \<lparr>self = \<lparr>provisionIterationInterval = 1000, provRunId = 0, keepRunning = True,
              watchDog = \<lparr>maxTime = 600000, monitoring = True, lastTouch = 0,
                          expiredHandlers = 1\<rparr>,
              runs = Suc k, consecFail = k\<rparr>,
      invocations = [AwaitSweep], sweeps = Suc k, exitTimers = [], PROVISION_ONCE = False\<rparr>"

text \<open>Rounds of a failed sweep followed by the delay, for invocation 0.\<close>

definition failing_rounds :: "nat \<Rightarrow> event list" where
  "failing_rounds n =
     concat (replicate n [SweepSettles 0 (Inl (Err ''sweep failed'')), DelayElapses 0 0])"


section \<open>Unfolding the model\<close>

lemmas example_defs = calm_def pool_def bid_a_def bid_b_def example_launchInfo_def
  secret_store_down_def zone_b_full_def queue_down_def overprovisioned_def pool_ab_def
  pool_aba_def

lemmas sweep_eval = runAllProvisionersOnce_def fetchAll_def maintenance_def provisionAll_def
  Promise_all_def promise_map_def

lemmas loop_eval = exec_def run_def iterate_def stop_def sweepSettles_def delayElapses_def
  boot_def Provisioner_def WatchDog_def watchDog_on_expired_def watchDog_start_def
  watchDog_touch_def watchDog_stop_def exitTimer_def MAX_FAILURES_def MAX_KILL_TIME_def
  MAX_PROVISION_ITERATION_def inFlight_def Let_def

lemmas provisionType_eval = provisionType_def bids_forEach_def delayer_def Promise_resolve_def
  change_at_def bids_at_def iteration_at_def head_calls_def

lemmas spawn_eval = spawn_def spawn_secret_def spawn_launchInfo_def fromNow_40_minutes_def
  invoke_def thenP_def Let_def

section \<open>Sequential tasks\<close>

lemma chained_append:
  "chained t (xs @ ys) t' = (\<exists>tm. chained t xs tm \<and> chained tm ys t')"
  by (induction xs arbitrary: t) auto

lemma sequential_invoke: "sequential t (invoke opn t r)"
  by (cases r) (auto simp add: sequential_def invoke_def split: sum.splits)

lemma sequential_resolve: "sequential t (Promise_resolve t v)"
  by (simp add: sequential_def Promise_resolve_def)

lemma sequential_thenP:
  assumes "sequential t q" and "\<And>t1 v. sequential t1 (f t1 v)"
  shows "sequential t (thenP q f)"
proof (cases "snd (fst q)")
  case (Inl e)
  with assms(1) show ?thesis by (simp add: thenP_def sequential_def)
next
  case (Inr v)
  let ?r = "f (fst (fst q)) v"
  have r: "sequential (fst (fst q)) ?r" by (rule assms(2))
  have q: "chained t (snd q) (fst (fst q))" "\<forall>x \<in> set (snd q). rejection x = None"
    using assms(1) Inr by (simp_all add: sequential_def)
  have eq: "thenP q f = (fst ?r, snd q @ snd ?r)"
    using Inr by (simp add: thenP_def Let_def)
  have 1: "chained t (snd q @ snd ?r) (fst (fst ?r))"
    using q(1) r by (auto simp add: chained_append sequential_def)
  have 2: "\<forall>x \<in> set (butlast (snd q @ snd ?r)). rejection x = None"
    using q(2) r by (auto simp add: butlast_append sequential_def dest: in_set_butlastD)
  have 3: "case snd (fst ?r) of
         Inr v \<Rightarrow> (\<forall>x \<in> set (snd q @ snd ?r). rejection x = None)
       | Inl e \<Rightarrow> snd q @ snd ?r \<noteq> [] \<and> rejection (last (snd q @ snd ?r)) = Some e"
    using q(2) r by (auto simp add: sequential_def split: sum.splits)
  show ?thesis unfolding eq sequential_def using 1 2 3 by (simp split: sum.splits)
qed

lemma sequential_spawn: "sequential t (spawn c wt b t)"
  unfolding spawn_def by (intro sequential_thenP sequential_invoke)

lemma sequential_delayer: "sequential t (delayer ms t v)"
  unfolding delayer_def by (rule sequential_invoke)

lemma sequential_bids_forEach:
  "sequential t q \<Longrightarrow> sequential t (bids_forEach c wt q bids)"
proof (induction bids arbitrary: q)
  case Nil
  then show ?case by (simp add: bids_forEach_def)
next
  case (Cons b bs)
  have "sequential t (thenP (thenP q (\<lambda>t v. spawn c wt b t)) (delayer 500))"
    by (intro sequential_thenP Cons.prems sequential_spawn sequential_delayer)
  from Cons.IH[OF this] show ?case by (simp add: bids_forEach_def)
qed

lemma sequential_provisionType: "sequential t (provisionType c wt pricing t)"
  unfolding provisionType_def Let_def
  by (intro sequential_thenP sequential_invoke)
     (auto intro!: sequential_bids_forEach sequential_resolve sequential_invoke)

section \<open>The promise chain of provisionType\<close>

lemma thenP_rejected: "snd (fst q) = Inl e \<Longrightarrow> thenP q f = q"
  by (cases q) (auto simp add: thenP_def)

lemma bids_forEach_Cons:
  "bids_forEach c wt q (b # bs)
     = bids_forEach c wt (thenP (thenP q (\<lambda>t v. spawn c wt b t)) (delayer 500)) bs"
  by (simp add: bids_forEach_def)

lemma bids_forEach_rejected:
  "snd (fst q) = Inl e \<Longrightarrow> bids_forEach c wt q bids = q"
  by (induction bids) (simp_all add: bids_forEach_def thenP_rejected)

lemma bids_forEach_refines:
  "bids_forEach c wt ((t, Inr v), cs) bids
     = (fst (submit_await_delay_repeat c wt bids t v),
        cs @ snd (submit_await_delay_repeat c wt bids t v))"
proof (induction bids arbitrary: t v cs)
  case Nil
  then show ?case by (simp add: bids_forEach_def)
next
  case (Cons b bs)
  show ?case
  proof (cases "snd (fst (spawn c wt b t))")
    case (Inl e)
    then have "thenP (thenP ((t, Inr v), cs) (\<lambda>t v. spawn c wt b t)) (delayer 500)
                 = (fst (spawn c wt b t), cs @ snd (spawn c wt b t))"
      by (cases "spawn c wt b t") (auto simp add: thenP_def Let_def)
    then show ?thesis using Inl
      by (simp add: bids_forEach_Cons bids_forEach_rejected)
  next
    case (Inr v')
    then have "thenP (thenP ((t, Inr v), cs) (\<lambda>t v. spawn c wt b t)) (delayer 500)
                 = ((fst (fst (spawn c wt b t)) + 500, Inr v'),
                    (cs @ snd (spawn c wt b t))
                    @ [\<lparr>what = Delay 500, started = fst (fst (spawn c wt b t)),
                        settled = fst (fst (spawn c wt b t)) + 500, rejection = None\<rparr>])"
      by (simp add: thenP_def Let_def delayer_def invoke_def)
    then show ?thesis using Inr
      by (simp add: bids_forEach_Cons Cons.IH Let_def)
  qed
qed

lemma provisionType_resolved:
  assumes "queue_pendingTasks c t (provisionerId c) (workerType wt) = (d, Inr n)"
  shows "provisionType c wt pricing t =
     (if change_at c wt (t + d) n > 0 then
        (fst (submit_await_delay_repeat c wt (bids_at c wt pricing (t + d) n) (t + d) Undefined),
         head_calls c wt t d n
         @ snd (submit_await_delay_repeat c wt (bids_at c wt pricing (t + d) n) (t + d) Undefined))
      else if change_at c wt (t + d) n < 0 then
        ((t + d + fst (awsManager_killCapacityOfWorkerType c (t + d) wt
                        (- change_at c wt (t + d) n) [Pending, SpotReq]),
          snd (awsManager_killCapacityOfWorkerType c (t + d) wt
                        (- change_at c wt (t + d) n) [Pending, SpotReq])),
         head_calls c wt t d n
         @ snd (invoke (KillCapacityOfWorkerType (workerType wt) (- change_at c wt (t + d) n)
                  [Pending, SpotReq]) (t + d)
                 (awsManager_killCapacityOfWorkerType c (t + d) wt
                        (- change_at c wt (t + d) n) [Pending, SpotReq])))
      else ((t + d, Inr Undefined), head_calls c wt t d n))"
  using assms
  by (simp add: provisionType_def thenP_def invoke_def Let_def change_at_def iteration_at_def
      head_calls_def bids_at_def Promise_resolve_def bids_forEach_refines)

lemma provisionType_rejected:
  assumes "queue_pendingTasks c t (provisionerId c) (workerType wt) = (d, Inl e)"
  shows "provisionType c wt pricing t =
     ((t + d, Inl e),
      [\<lparr>what = PendingTasks (provisionerId c) (workerType wt), started = t, settled = t + d,
        rejection = Some e\<rparr>])"
  using assms by (simp add: provisionType_def thenP_def invoke_def)


lemmas spawn_unfold = spawn_def thenP_def invoke_def request_for_def Let_def

lemma spawn_attempts: "length (attempts (snd (spawn c wt b t))) = 1"
  by (simp add: spawn_unfold attempts_def split: sum.splits)

lemma spawn_kills: "kills (snd (spawn c wt b t)) = []"
  by (simp add: spawn_unfold kills_def split: sum.splits)

lemma spawn_requests_le: "length (requests (snd (spawn c wt b t))) \<le> 1"
  by (simp add: spawn_unfold requests_def split: sum.splits)

lemma spawn_requests_resolved:
  "snd (fst (spawn c wt b t)) = Inr v \<Longrightarrow>
     map what (requests (snd (spawn c wt b t))) = [request_for wt b]
     \<and> (\<forall>x \<in> set (snd (spawn c wt b t)). rejection x = None)"
  by (auto simp add: spawn_unfold requests_def split: sum.splits)

lemma spawn_paced_resolved:
  "snd (fst (spawn c wt b t)) = Inr v \<Longrightarrow>
     paced (snd (spawn c wt b t) @ \<lparr>what = Delay 500, started = fst (fst (spawn c wt b t)),
             settled = fst (fst (spawn c wt b t)) + 500, rejection = None\<rparr> # cs) = paced cs"
  by (cases cs) (auto simp add: spawn_unfold split: sum.splits)

lemma spawn_paced_rejected:
  "snd (fst (spawn c wt b t)) = Inl e \<Longrightarrow> paced (snd (spawn c wt b t))"
  by (auto simp add: spawn_unfold split: sum.splits)

lemma paced_skip: "\<not> isRequestSpotInstance (what x) \<Longrightarrow> paced (x # xs) = paced xs"
  by (cases xs) simp_all

lemma repeat_paced: "paced (snd (submit_await_delay_repeat c wt bids t v))"
proof (induction bids arbitrary: t v)
  case Nil
  then show ?case by simp
next
  case (Cons b bs)
  show ?case
  proof (cases "snd (fst (spawn c wt b t))")
    case (Inl e)
    then show ?thesis by (simp add: spawn_paced_rejected)
  next
    case (Inr v')
    then show ?thesis by (simp add: Let_def spawn_paced_resolved Cons.IH)
  qed
qed

lemma repeat_kills: "kills (snd (submit_await_delay_repeat c wt bids t v)) = []"
proof (induction bids arbitrary: t v)
  case Nil
  then show ?case by (simp add: kills_def)
next
  case (Cons b bs)
  have "kills (snd (submit_await_delay_repeat c wt bs t' v')) = []" for t' v'
    by (rule Cons.IH)
  moreover have "kills (xs @ y # ys) = kills xs @ kills [y] @ kills ys" for xs y ys
    by (simp add: kills_def)
  ultimately show ?case using spawn_kills[of c wt b t]
    by (simp add: Let_def split: sum.splits) (simp add: kills_def)
qed

lemma repeat_resolved:
  "snd (fst (submit_await_delay_repeat c wt bids t v)) = Inr v' \<Longrightarrow>
     map what (requests (snd (submit_await_delay_repeat c wt bids t v))) = map (request_for wt) bids
     \<and> length (attempts (snd (submit_await_delay_repeat c wt bids t v))) = length bids
     \<and> (\<forall>x \<in> set (snd (submit_await_delay_repeat c wt bids t v)). rejection x = None)"
proof (induction bids arbitrary: t v)
  case Nil
  then show ?case by (simp add: requests_def attempts_def)
next
  case (Cons b bs)
  show ?case
  proof (cases "snd (fst (spawn c wt b t))")
    case (Inl e)
    with Cons.prems show ?thesis by simp
  next
    case (Inr w)
    let ?r = "submit_await_delay_repeat c wt bs (fst (fst (spawn c wt b t)) + 500) w"
    from Cons.prems Inr have "snd (fst ?r) = Inr v'" by (simp add: Let_def)
    from Cons.IH[OF this] have ih: "map what (requests (snd ?r)) = map (request_for wt) bs"
      "length (attempts (snd ?r)) = length bs" "\<forall>x \<in> set (snd ?r). rejection x = None"
      by simp_all
    have sp: "\<forall>x \<in> set (snd (spawn c wt b t)). rejection x = None"
      using spawn_requests_resolved[OF Inr] by blast
    have calls: "snd (submit_await_delay_repeat c wt (b # bs) t v)
       = snd (spawn c wt b t)
         @ \<lparr>what = Delay 500, started = fst (fst (spawn c wt b t)),
             settled = fst (fst (spawn c wt b t)) + 500, rejection = None\<rparr> # snd ?r"
      using Inr by (simp add: Let_def)
    have 1: "map what (requests (snd (submit_await_delay_repeat c wt (b # bs) t v)))
               = map (request_for wt) (b # bs)"
      unfolding calls using spawn_requests_resolved[OF Inr, THEN conjunct1] ih(1)
      by (simp add: requests_def)
    have 2: "length (attempts (snd (submit_await_delay_repeat c wt (b # bs) t v)))
               = length (b # bs)"
      unfolding calls using spawn_attempts[of c wt b t] ih(2)
      by (simp add: attempts_def)
    have 3: "\<forall>x \<in> set (snd (submit_await_delay_repeat c wt (b # bs) t v)). rejection x = None"
      unfolding calls using sp ih(3) by auto
    from 1 2 3 show ?thesis by blast
  qed
qed

lemma repeat_stops:
  assumes "fst (submit_await_delay_repeat c wt pre t v) = (tb, Inr w)"
      and "snd (fst (spawn c wt b tb)) = Inl e"
  shows "submit_await_delay_repeat c wt (pre @ b # post) t v
           = (fst (spawn c wt b tb),
              snd (submit_await_delay_repeat c wt pre t v) @ snd (spawn c wt b tb))"
  using assms
proof (induction pre arbitrary: t v)
  case Nil
  then show ?case by simp
next
  case (Cons a pre)
  show ?case
  proof (cases "snd (fst (spawn c wt a t))")
    case (Inl e')
    with Cons.prems(1) show ?thesis by (cases "spawn c wt a t") auto
  next
    case (Inr u)
    with Cons.prems(1)
    have "fst (submit_await_delay_repeat c wt pre (fst (fst (spawn c wt a t)) + 500) u) = (tb, Inr w)"
      by (simp add: Let_def)
    from Cons.IH[OF this Cons.prems(2)] Inr show ?thesis by (simp add: Let_def)
  qed
qed

lemma spawn_reports: "reports (snd (spawn c wt b t)) = []"
  by (simp add: spawn_unfold reports_def split: sum.splits)

lemma repeat_reports: "reports (snd (submit_await_delay_repeat c wt bids t v)) = []"
proof (induction bids arbitrary: t v)
  case Nil
  then show ?case by (simp add: reports_def)
next
  case (Cons b bs)
  have "reports (snd (submit_await_delay_repeat c wt bs t' v')) = []" for t' v'
    by (rule Cons.IH)
  then show ?case using spawn_reports[of c wt b t]
    by (simp add: Let_def reports_def split: sum.splits)
qed

lemma head_calls_read:
  "requests (head_calls c wt t d n @ cs) = requests cs"
  "kills (head_calls c wt t d n @ cs) = kills cs"
  "attempts (head_calls c wt t d n @ cs) = attempts cs"
  "map what (reports (head_calls c wt t d n @ cs))
     = ReportProvisioningIteration (iteration_at c wt (t + d) n) # map what (reports cs)"
  by (simp_all add: head_calls_def requests_def kills_def attempts_def reports_def)

section \<open>spawn: the secret is written before the request\<close>

text \<open>
  C1. In every invocation of \<open>spawn\<close>, the first call is the write of the Launch Secret:
  a call of \<open>Secret.create\<close>, made at the time of the invocation with the secret built for
  the bid, settling when the secret store answers; it is the only such call. Every
  provisioning request among the calls of \<open>spawn\<close> comes after that call, is the request
  for the bid, and is submitted only when the write has resolved (its call carries no
  rejection) and no earlier than the time at which it settled. If the write of the secret
  rejects, \<open>spawn\<close> rejects with the same error at the time the write settled, and no
  provisioning request is among its calls.
\<close>

theorem spawn_secret_before_request:
  "snd (spawn c wt b t) \<noteq> []
   \<and> what (hd (snd (spawn c wt b t))) = SecretCreate (spawn_secret wt b t)
   \<and> started (hd (snd (spawn c wt b t))) = t
   \<and> settled (hd (snd (spawn c wt b t))) = t + fst (Secret_create c t (spawn_secret wt b t))
   \<and> attempts (snd (spawn c wt b t)) = [hd (snd (spawn c wt b t))]
   \<and> (\<forall>x \<in> set (requests (snd (spawn c wt b t))).
         x \<in> set (tl (snd (spawn c wt b t)))
         \<and> what x = RequestSpotInstance (spawn_launchInfo wt b) b
         \<and> rejection (hd (snd (spawn c wt b t))) = None
         \<and> settled (hd (snd (spawn c wt b t))) \<le> started x
         \<and> snd (Secret_create c t (spawn_secret wt b t)) = Inr ()
         \<and> t + fst (Secret_create c t (spawn_secret wt b t)) \<le> started x)
   \<and> (\<forall>e. rejection (hd (snd (spawn c wt b t))) = Some e \<longrightarrow>
         snd (Secret_create c t (spawn_secret wt b t)) = Inl e
         \<and> fst (spawn c wt b t) = (settled (hd (snd (spawn c wt b t))), Inl e)
         \<and> requests (snd (spawn c wt b t)) = [])
   \<and> (\<forall>e. snd (Secret_create c t (spawn_secret wt b t)) = Inl e \<longrightarrow>
         rejection (hd (snd (spawn c wt b t))) = Some e
         \<and> fst (spawn c wt b t) = (t + fst (Secret_create c t (spawn_secret wt b t)), Inl e)
         \<and> requests (snd (spawn c wt b t)) = [])"
  by (auto simp add: spawn_def invoke_def thenP_def requests_def attempts_def Let_def
      split: prod.splits sum.splits)

theorem spawn_secret_before_request_witness:
  "map (\<lambda>x. (what x, started x, settled x, rejection x))
       (snd (spawn (calm [] 0) (pool ''a'' []) bid_a 7))
     = [(SecretCreate (spawn_secret (pool ''a'' []) bid_a 7), 7, 8, None),
        (RequestSpotInstance (spawn_launchInfo (pool ''a'' []) bid_a) bid_a, 8, 9, None)]
   \<and> rejection (hd (snd (spawn (calm [] 0) (pool ''a'' []) bid_a 7))) = None
   \<and> settled (hd (snd (spawn (calm [] 0) (pool ''a'' []) bid_a 7)))
       \<le> started (hd (requests (snd (spawn (calm [] 0) (pool ''a'' []) bid_a 7))))
   \<and> map (\<lambda>x. (what x, started x, settled x, rejection x))
       (snd (spawn (secret_store_down [] 0) (pool ''a'' []) bid_a 7))
     = [(SecretCreate (spawn_secret (pool ''a'' []) bid_a 7), 7, 8, Some (Err ''store down''))]
   \<and> fst (spawn (secret_store_down [] 0) (pool ''a'' []) bid_a 7) = (8, Inl (Err ''store down''))
   \<and> requests (snd (spawn (secret_store_down [] 0) (pool ''a'' []) bid_a 7)) = []"
proof -
  let ?ok = "calm [] 0"
  let ?down = "secret_store_down [] 0"
  let ?wt = "pool ''a'' []"
  have 1: "map (\<lambda>x. (what x, started x, settled x, rejection x)) (snd (spawn ?ok ?wt bid_a 7))
     = [(SecretCreate (spawn_secret ?wt bid_a 7), 7, 8, None),
        (RequestSpotInstance (spawn_launchInfo ?wt bid_a) bid_a, 8, 9, None)]"
    by (simp add: spawn_def invoke_def thenP_def Let_def calm_def)
  have r: "map started (requests (snd (spawn ?ok ?wt bid_a 7))) = [8]"
    by (simp add: spawn_def invoke_def thenP_def Let_def calm_def requests_def)
  then have "hd (requests (snd (spawn ?ok ?wt bid_a 7)))
               \<in> set (requests (snd (spawn ?ok ?wt bid_a 7)))"
    by (cases "requests (snd (spawn ?ok ?wt bid_a 7))") simp_all
  with spawn_secret_before_request [of ?ok ?wt bid_a 7]
  have 2: "rejection (hd (snd (spawn ?ok ?wt bid_a 7))) = None
       \<and> settled (hd (snd (spawn ?ok ?wt bid_a 7)))
           \<le> started (hd (requests (snd (spawn ?ok ?wt bid_a 7))))"
    by blast
  have 3: "map (\<lambda>x. (what x, started x, settled x, rejection x)) (snd (spawn ?down ?wt bid_a 7))
     = [(SecretCreate (spawn_secret ?wt bid_a 7), 7, 8, Some (Err ''store down''))]"
    by (simp add: spawn_def invoke_def thenP_def Let_def calm_def secret_store_down_def)
  then have rej: "rejection (hd (snd (spawn ?down ?wt bid_a 7))) = Some (Err ''store down'')"
    "settled (hd (snd (spawn ?down ?wt bid_a 7))) = 8"
    by (cases "snd (spawn ?down ?wt bid_a 7)"; simp)+
  with spawn_secret_before_request [of ?down ?wt bid_a 7]
  have "fst (spawn ?down ?wt bid_a 7)
          = (settled (hd (snd (spawn ?down ?wt bid_a 7))), Inl (Err ''store down''))
        \<and> requests (snd (spawn ?down ?wt bid_a 7)) = []"
    by blast
  with rej(2) have 4: "fst (spawn ?down ?wt bid_a 7) = (8, Inl (Err ''store down''))
        \<and> requests (snd (spawn ?down ?wt bid_a 7)) = []"
    by simp
  from 1 2 3 4 show ?thesis by blast
qed

section \<open>provisionType: scaling down\<close>

text \<open>
  C5. When the pending-task query resolves and the capacity change is negative,
  \<open>provisionType\<close> makes exactly one termination request. It names the pool, asks for
  \<open>- change\<close> units, which is no more than the absolute value of the change, and restricts
  the termination to the lifecycle states pending and spot request; the running state is not
  among them. No provisioning request is made.
\<close>

theorem provisionType_scale_down:
  assumes "queue_pendingTasks c t (provisionerId c) (workerType wt) = (d, Inr n)"
      and "change_at c wt (t + d) n < 0"
  shows "length (kills (snd (provisionType c wt pricing t))) = 1
       \<and> (\<forall>x \<in> set (kills (snd (provisionType c wt pricing t))).
             what x = KillCapacityOfWorkerType (workerType wt) (- change_at c wt (t + d) n)
                        [Pending, SpotReq]
             \<and> killCapacity (what x) \<le> \<bar>change_at c wt (t + d) n\<bar>
             \<and> Running \<notin> set (killStates (what x)))
       \<and> requests (snd (provisionType c wt pricing t)) = []"
  using assms(2)
  by (simp add: provisionType_resolved[OF assms(1)] head_calls_read)
     (simp add: invoke_def kills_def requests_def)

theorem provisionType_scale_down_witness:
  "queue_pendingTasks (overprovisioned []) 0 (provisionerId (overprovisioned [])) (workerType pool_ab)
     = (1, Inr 0)
   \<and> change_at (overprovisioned []) pool_ab 1 0 = - 15
   \<and> map what (kills (snd (provisionType (overprovisioned []) pool_ab () 0)))
       = [KillCapacityOfWorkerType ''a'' 15 [Pending, SpotReq]]
   \<and> requests (snd (provisionType (overprovisioned []) pool_ab () 0)) = []"
proof -
  let ?c = "overprovisioned []"
  have h1: "queue_pendingTasks ?c 0 (provisionerId ?c) (workerType pool_ab) = (1, Inr 0)"
    by (simp add: example_defs)
  have h2: "change_at ?c pool_ab 1 0 = - 15"
    by (simp add: example_defs change_at_def)
  then have h2': "change_at ?c pool_ab (0 + 1) 0 < 0" by simp
  have k: "map what (kills (snd (provisionType ?c pool_ab () 0)))
       = [KillCapacityOfWorkerType ''a'' 15 [Pending, SpotReq]]"
    by (simp add: provisionType_eval spawn_eval example_defs kills_def)
  from provisionType_scale_down[OF h1 h2', of "()"]
  have "requests (snd (provisionType ?c pool_ab () 0)) = []" by blast
  with h1 h2 k show ?thesis by blast
qed

section \<open>provisionType: the iteration report\<close>

text \<open>
  C6 as stated fails: when the pending-task query rejects, the await throws before the
  report, and \<open>provisionType\<close> rejects without having reported the iteration.
\<close>

theorem provisionType_no_report_counterexample:
  "fst (provisionType (queue_down []) pool_ab () 0) = (3, Inl (Err ''queue down''))
   \<and> reports (snd (provisionType (queue_down []) pool_ab () 0)) = []"
  by (simp add: provisionType_eval spawn_eval example_defs reports_def)

text \<open>
  C6, amended. Every invocation of \<open>provisionType\<close> whose pending-task query resolves
  reports the iteration exactly once, whatever the sign of the capacity change. The record
  holds the provisioner and the pool, the pending tasks, the running and the pending
  capacity, and the change that was computed. When the change is zero, the query and the
  report are the only calls: there is no spawn, no provisioning request and no termination
  request.
\<close>

theorem provisionType_reports_once:
  assumes "queue_pendingTasks c t (provisionerId c) (workerType wt) = (d, Inr n)"
  shows "map what (reports (snd (provisionType c wt pricing t)))
           = [ReportProvisioningIteration (iteration_at c wt (t + d) n)]
       \<and> it_change (iteration_at c wt (t + d) n) = change_at c wt (t + d) n
       \<and> (change_at c wt (t + d) n = 0 \<longrightarrow>
            snd (provisionType c wt pricing t) = head_calls c wt t d n
            \<and> requests (snd (provisionType c wt pricing t)) = []
            \<and> kills (snd (provisionType c wt pricing t)) = []
            \<and> attempts (snd (provisionType c wt pricing t)) = [])"
proof -
  have 1: "map what (reports (snd (provisionType c wt pricing t)))
           = [ReportProvisioningIteration (iteration_at c wt (t + d) n)]"
    by (simp add: provisionType_resolved[OF assms] head_calls_read repeat_reports)
       (simp add: head_calls_def reports_def invoke_def)
  have 2: "it_change (iteration_at c wt (t + d) n) = change_at c wt (t + d) n"
    by (simp add: iteration_at_def)
  have 3: "change_at c wt (t + d) n = 0 \<Longrightarrow>
            snd (provisionType c wt pricing t) = head_calls c wt t d n"
    by (simp add: provisionType_resolved[OF assms])
  have 4: "requests (head_calls c wt t d n) = []" "kills (head_calls c wt t d n) = []"
    "attempts (head_calls c wt t d n) = []"
    by (simp_all add: head_calls_def requests_def kills_def attempts_def)
  from 1 2 3 4 show ?thesis by simp
qed

theorem provisionType_reports_once_witness:
  "queue_pendingTasks (calm [] 0) 0 (provisionerId (calm [] 0)) (workerType pool_ab) = (1, Inr 0)
   \<and> change_at (calm [] 0) pool_ab 1 0 = 0
   \<and> map what (reports (snd (provisionType (calm [] 0) pool_ab () 0)))
       = [ReportProvisioningIteration
            \<lparr>it_provisionerId = ''aws-provisioner'', it_workerType = ''a'', it_pendingTasks = 0,
             it_runningCapacity = 0, it_pendingCapacity = 0, it_change = 0\<rparr>]
   \<and> requests (snd (provisionType (calm [] 0) pool_ab () 0)) = []
   \<and> kills (snd (provisionType (calm [] 0) pool_ab () 0)) = []"
proof -
  let ?c = "calm [] 0"
  have h1: "queue_pendingTasks ?c 0 (provisionerId ?c) (workerType pool_ab) = (1, Inr 0)"
    by (simp add: example_defs)
  have h2: "change_at ?c pool_ab 1 0 = 0"
    by (simp add: example_defs change_at_def)
  have it: "iteration_at ?c pool_ab 1 0 =
            \<lparr>it_provisionerId = ''aws-provisioner'', it_workerType = ''a'', it_pendingTasks = 0,
             it_runningCapacity = 0, it_pendingCapacity = 0, it_change = 0\<rparr>"
    by (simp add: example_defs change_at_def iteration_at_def)
  from provisionType_reports_once[OF h1, of "()"] h2 it
  have "map what (reports (snd (provisionType ?c pool_ab () 0)))
       = [ReportProvisioningIteration
            \<lparr>it_provisionerId = ''aws-provisioner'', it_workerType = ''a'', it_pendingTasks = 0,
             it_runningCapacity = 0, it_pendingCapacity = 0, it_change = 0\<rparr>]
     \<and> requests (snd (provisionType ?c pool_ab () 0)) = []
     \<and> kills (snd (provisionType ?c pool_ab () 0)) = []"
    by (simp add: head_calls_def reports_def requests_def kills_def)
  with h1 h2 show ?thesis by blast
qed

section \<open>provisionType: scaling up\<close>

text \<open>
  C3 as stated fails: with a capacity change of 2 and a bid resolver that returns 2 bids, a
  secret store that is down makes the first spawn reject, and no bid is submitted at all.
\<close>

theorem provisionType_exactly_delta_counterexample:
  "change_at (secret_store_down [] 2) pool_ab 1 2 = 2
   \<and> length (bids_at (secret_store_down [] 2) pool_ab () 1 2) = 2
   \<and> length (attempts (snd (provisionType (secret_store_down [] 2) pool_ab () 0))) = 1
   \<and> requests (snd (provisionType (secret_store_down [] 2) pool_ab () 0)) = []"
  by (simp add: provisionType_eval spawn_eval example_defs requests_def attempts_def)

text \<open>
  C3, amended. When the pending-task query resolves and the capacity change is positive, the
  calls of \<open>provisionType\<close> are made strictly one after another, each when the one before
  it has settled, up to the time its promise settles, so that no two spawns overlap; and every
  provisioning request is directly followed by a delay of 500 milliseconds (unless it was
  rejected, which ends the chain). If the promise of \<open>provisionType\<close> resolves, exactly one
  request was submitted for each bid the bid resolver returned, in its order: as many as the
  capacity change whenever the resolver returns that many bids.
\<close>

theorem provisionType_scale_up_sequential:
  assumes "queue_pendingTasks c t (provisionerId c) (workerType wt) = (d, Inr n)"
      and "0 < change_at c wt (t + d) n"
  shows "chained t (snd (provisionType c wt pricing t)) (fst (fst (provisionType c wt pricing t)))
       \<and> paced (snd (provisionType c wt pricing t))
       \<and> (\<forall>v. snd (fst (provisionType c wt pricing t)) = Inr v \<longrightarrow>
            map what (requests (snd (provisionType c wt pricing t)))
              = map (request_for wt) (bids_at c wt pricing (t + d) n)
            \<and> (length (bids_at c wt pricing (t + d) n) = nat (change_at c wt (t + d) n) \<longrightarrow>
                 length (requests (snd (provisionType c wt pricing t)))
                   = nat (change_at c wt (t + d) n)))"
proof -
  let ?r = "submit_await_delay_repeat c wt (bids_at c wt pricing (t + d) n) (t + d) Undefined"
  have P: "provisionType c wt pricing t = (fst ?r, head_calls c wt t d n @ snd ?r)"
    using assms(2) by (simp add: provisionType_resolved[OF assms(1)])
  have 1: "chained t (snd (provisionType c wt pricing t)) (fst (fst (provisionType c wt pricing t)))"
    using sequential_provisionType[of t c wt pricing] by (simp add: sequential_def)
  have 2: "paced (snd (provisionType c wt pricing t))"
    using repeat_paced[of c wt "bids_at c wt pricing (t + d) n" "t + d" Undefined]
    by (simp add: P head_calls_def paced_skip)
  have 3: "map what (requests (snd (provisionType c wt pricing t)))
              = map (request_for wt) (bids_at c wt pricing (t + d) n)"
    if "snd (fst (provisionType c wt pricing t)) = Inr v" for v
    using that repeat_resolved[of c wt "bids_at c wt pricing (t + d) n" "t + d" Undefined v]
    by (simp add: P head_calls_read)
  have 4: "length (requests (snd (provisionType c wt pricing t)))
              = length (bids_at c wt pricing (t + d) n)"
    if "snd (fst (provisionType c wt pricing t)) = Inr v" for v
    using 3[OF that] by (metis length_map)
  from 1 2 3 4 show ?thesis by simp
qed

theorem provisionType_scale_up_sequential_witness:
  "queue_pendingTasks (calm [] 2) 0 (provisionerId (calm [] 2)) (workerType pool_ab) = (1, Inr 2)
   \<and> change_at (calm [] 2) pool_ab 1 2 = 2
   \<and> fst (provisionType (calm [] 2) pool_ab () 0) = (1005, Inr (Returned ''sir''))
   \<and> map (\<lambda>x. (started x, settled x)) (snd (provisionType (calm [] 2) pool_ab () 0))
       = [(0, 1), (1, 1), (1, 2), (2, 3), (3, 503), (503, 504), (504, 505), (505, 1005)]
   \<and> chained 0 (snd (provisionType (calm [] 2) pool_ab () 0)) 1005
   \<and> paced (snd (provisionType (calm [] 2) pool_ab () 0))
   \<and> map what (requests (snd (provisionType (calm [] 2) pool_ab () 0)))
       = [request_for pool_ab bid_a, request_for pool_ab bid_b]
   \<and> length (requests (snd (provisionType (calm [] 2) pool_ab () 0))) = 2"
proof -
  let ?c = "calm [] 2"
  let ?P = "provisionType ?c pool_ab () 0"
  have h1: "queue_pendingTasks ?c 0 (provisionerId ?c) (workerType pool_ab) = (1, Inr 2)"
    by (simp add: example_defs)
  have h2: "change_at ?c pool_ab 1 2 = 2"
    by (simp add: example_defs change_at_def)
  then have h2': "0 < change_at ?c pool_ab (0 + 1) 2" by simp
  have b: "bids_at ?c pool_ab () 1 2 = [bid_a, bid_b]"
    by (simp add: bids_at_def change_at_def pool_ab_def pool_def calm_def numeral_2_eq_2)
  have p: "fst ?P = (1005, Inr (Returned ''sir''))"
    by (simp add: provisionType_eval spawn_eval example_defs)
  have ts: "map (\<lambda>x. (started x, settled x)) (snd ?P)
       = [(0, 1), (1, 1), (1, 2), (2, 3), (3, 503), (503, 504), (504, 505), (505, 1005)]"
    by (simp add: provisionType_eval spawn_eval example_defs)
  note T = provisionType_scale_up_sequential[OF h1 h2', of "()"]
  from T p have 1: "chained 0 (snd ?P) 1005" by simp
  from T have 2: "paced (snd ?P)" by blast
  from T p h2 b have 3: "map what (requests (snd ?P)) = [request_for pool_ab bid_a, request_for pool_ab bid_b]
      \<and> length (requests (snd ?P)) = 2"
    by simp
  from h1 h2 p ts 1 2 3 show ?thesis by blast
qed

section \<open>provisionType: a bid that fails\<close>

lemma zone_b_full_run:
  "queue_pendingTasks (zone_b_full [] 3) 0 (provisionerId (zone_b_full [] 3)) (workerType pool_aba)
     = (1, Inr 3)"
  "0 < change_at (zone_b_full [] 3) pool_aba (0 + 1) 3"
  "bids_at (zone_b_full [] 3) pool_aba () (0 + 1) 3 = [bid_a] @ bid_b # [bid_a]"
  "fst (bids_forEach (zone_b_full [] 3) pool_aba (Promise_resolve (0 + 1) Undefined) [bid_a])
     = (503, Inr (Returned ''sir''))"
  "fst (spawn (zone_b_full [] 3) pool_aba bid_b 503) = (505, Inl (Err ''capacity''))"
  by (simp_all add: provisionType_eval spawn_eval example_defs numeral_3_eq_3)

text \<open>
  C4. During scale-up, let the chain have resolved over the bids \<open>pre\<close> and let the spawn
  of the next bid \<open>b\<close> reject with \<open>e\<close>. Then the promise of \<open>provisionType\<close> rejects
  with \<open>e\<close>, at the time the spawn rejected; the requests for the bids of \<open>pre\<close> are
  the first requests among its calls, each of them resolved; and \<open>provisionType\<close> makes no
  termination request: nothing submitted before the failure is cancelled or undone.
\<close>

theorem provisionType_bid_failure_propagates:
  assumes pend: "queue_pendingTasks c t (provisionerId c) (workerType wt) = (d, Inr n)"
      and up: "0 < change_at c wt (t + d) n"
      and bids: "bids_at c wt pricing (t + d) n = pre @ b # post"
      and pre: "fst (bids_forEach c wt (Promise_resolve (t + d) Undefined) pre) = (tb, Inr v)"
      and fail: "fst (spawn c wt b tb) = (te, Inl e)"
  shows "fst (provisionType c wt pricing t) = (te, Inl e)
       \<and> map what (take (length pre) (requests (snd (provisionType c wt pricing t))))
           = map (request_for wt) pre
       \<and> (\<forall>x \<in> set (take (length pre) (requests (snd (provisionType c wt pricing t)))).
             rejection x = None)
       \<and> kills (snd (provisionType c wt pricing t)) = []"
proof -
  let ?pre = "submit_await_delay_repeat c wt pre (t + d) Undefined"
  have pre': "fst ?pre = (tb, Inr v)"
    using pre by (simp add: Promise_resolve_def bids_forEach_refines)
  have fail': "snd (fst (spawn c wt b tb)) = Inl e" using fail by simp
  have P: "provisionType c wt pricing t
             = (fst (spawn c wt b tb), head_calls c wt t d n @ snd ?pre @ snd (spawn c wt b tb))"
    using up by (simp add: provisionType_resolved[OF pend] bids repeat_stops[OF pre' fail'])
  have res: "map what (requests (snd ?pre)) = map (request_for wt) pre"
    "\<forall>x \<in> set (snd ?pre). rejection x = None"
    using repeat_resolved[of c wt pre "t + d" Undefined v] pre' by simp_all
  then have len: "length (requests (snd ?pre)) = length pre" by (metis length_map)
  have req: "requests (snd (provisionType c wt pricing t))
               = requests (snd ?pre) @ requests (snd (spawn c wt b tb))"
    by (simp add: P head_calls_read) (simp add: requests_def)
  have 1: "fst (provisionType c wt pricing t) = (te, Inl e)" using fail by (simp add: P)
  have 2: "take (length pre) (requests (snd (provisionType c wt pricing t))) = requests (snd ?pre)"
    using len by (simp add: req)
  have 3: "\<forall>x \<in> set (requests (snd ?pre)). rejection x = None"
    using res(2) by (simp add: requests_def)
  have 4: "kills (snd (provisionType c wt pricing t)) = []"
    using repeat_kills[of c wt pre "t + d" Undefined] spawn_kills[of c wt b tb]
    by (simp add: P head_calls_read) (simp add: kills_def)
  from 1 2 3 4 res(1) show ?thesis by simp
qed

theorem provisionType_bid_failure_propagates_witness:
  "bids_at (zone_b_full [] 3) pool_aba () 1 3 = [bid_a, bid_b, bid_a]
   \<and> fst (spawn (zone_b_full [] 3) pool_aba bid_b 503) = (505, Inl (Err ''capacity''))
   \<and> fst (provisionType (zone_b_full [] 3) pool_aba () 0) = (505, Inl (Err ''capacity''))
   \<and> map what (take 1 (requests (snd (provisionType (zone_b_full [] 3) pool_aba () 0))))
       = [request_for pool_aba bid_a]
   \<and> map rejection (take 1 (requests (snd (provisionType (zone_b_full [] 3) pool_aba () 0))))
       = [None]
   \<and> kills (snd (provisionType (zone_b_full [] 3) pool_aba () 0)) = []"
proof -
  let ?c = "zone_b_full [] 3"
  let ?P = "provisionType ?c pool_aba () 0"
  have b: "bids_at ?c pool_aba () 1 3 = [bid_a, bid_b, bid_a]"
    using zone_b_full_run(3) by simp
  have r: "map rejection (take 1 (requests (snd ?P))) = [None]"
    by (simp add: provisionType_eval spawn_eval example_defs requests_def)
  note T = provisionType_bid_failure_propagates[OF zone_b_full_run]
  from T have 1: "fst ?P = (505, Inl (Err ''capacity''))" by blast
  from T have 2: "map what (take 1 (requests (snd ?P))) = [request_for pool_aba bid_a]"
    by simp
  from T have 3: "kills (snd ?P) = []" by blast
  from b zone_b_full_run(5) r 1 2 3 show ?thesis by blast
qed

text \<open>
  C10. In the same situation, the calls of \<open>provisionType\<close> are the pending-task query, the
  report, the calls of the chain over \<open>pre\<close> and the calls of the failed spawn of \<open>b\<close>,
  and nothing else: whatever bids \<open>post\<close> follow \<open>b\<close> in the list, no spawn is attempted
  for them. The number of spawns attempted is the number of bids up to and including \<open>b\<close>,
  and \<open>provisionType\<close> rejects.
\<close>

theorem provisionType_stops_at_first_failure:
  assumes pend: "queue_pendingTasks c t (provisionerId c) (workerType wt) = (d, Inr n)"
      and up: "0 < change_at c wt (t + d) n"
      and bids: "bids_at c wt pricing (t + d) n = pre @ b # post"
      and pre: "fst (bids_forEach c wt (Promise_resolve (t + d) Undefined) pre) = (tb, Inr v)"
      and fail: "snd (fst (spawn c wt b tb)) = Inl e"
  shows "snd (provisionType c wt pricing t)
           = head_calls c wt t d n
             @ snd (bids_forEach c wt (Promise_resolve (t + d) Undefined) pre)
             @ snd (spawn c wt b tb)
       \<and> snd (fst (provisionType c wt pricing t)) = Inl e
       \<and> length (attempts (snd (provisionType c wt pricing t))) = length pre + 1
       \<and> length (requests (snd (provisionType c wt pricing t))) \<le> length pre + 1"
proof -
  let ?pre = "submit_await_delay_repeat c wt pre (t + d) Undefined"
  have pre': "fst ?pre = (tb, Inr v)"
    using pre by (simp add: Promise_resolve_def bids_forEach_refines)
  have same: "snd (bids_forEach c wt (Promise_resolve (t + d) Undefined) pre) = snd ?pre"
    by (simp add: Promise_resolve_def bids_forEach_refines)
  have P: "provisionType c wt pricing t
             = (fst (spawn c wt b tb), head_calls c wt t d n @ snd ?pre @ snd (spawn c wt b tb))"
    using up by (simp add: provisionType_resolved[OF pend] bids repeat_stops[OF pre' fail])
  have res: "map what (requests (snd ?pre)) = map (request_for wt) pre"
    "length (attempts (snd ?pre)) = length pre"
    using repeat_resolved[of c wt pre "t + d" Undefined v] pre' by simp_all
  then have len: "length (requests (snd ?pre)) = length pre" by (metis length_map)
  have 1: "length (attempts (snd (provisionType c wt pricing t))) = length pre + 1"
    using res(2) spawn_attempts[of c wt b tb]
    by (simp add: P head_calls_read) (simp add: attempts_def)
  have 2: "length (requests (snd (provisionType c wt pricing t))) \<le> length pre + 1"
    using len spawn_requests_le[of c wt b tb]
    by (simp add: P head_calls_read) (simp add: requests_def)
  from 1 2 fail show ?thesis by (simp add: P same)
qed

theorem provisionType_stops_at_first_failure_witness:
  "bids_at (zone_b_full [] 3) pool_aba () 1 3 = [bid_a, bid_b, bid_a]
   \<and> snd (fst (spawn (zone_b_full [] 3) pool_aba bid_b 503)) = Inl (Err ''capacity'')
   \<and> snd (fst (provisionType (zone_b_full [] 3) pool_aba () 0)) = Inl (Err ''capacity'')
   \<and> length (attempts (snd (provisionType (zone_b_full [] 3) pool_aba () 0))) = 2
   \<and> length (requests (snd (provisionType (zone_b_full [] 3) pool_aba () 0))) \<le> 2
   \<and> map started (snd (provisionType (zone_b_full [] 3) pool_aba () 0))
       = [0, 1, 1, 2, 3, 503, 504]"
proof -
  let ?c = "zone_b_full [] 3"
  let ?P = "provisionType ?c pool_aba () 0"
  have b: "bids_at ?c pool_aba () 1 3 = [bid_a, bid_b, bid_a]"
    using zone_b_full_run(3) by simp
  have f: "snd (fst (spawn ?c pool_aba bid_b 503)) = Inl (Err ''capacity'')"
    by (simp add: zone_b_full_run)
  have ts: "map started (snd ?P) = [0, 1, 1, 2, 3, 503, 504]"
    by (simp add: provisionType_eval spawn_eval example_defs)
  note T = provisionType_stops_at_first_failure[OF zone_b_full_run(1-4) f]
  from T have 1: "snd (fst ?P) = Inl (Err ''capacity'')" by blast
  from T[THEN conjunct2] have 2: "length (attempts (snd ?P)) = 2" by simp
  from T[THEN conjunct2] have 3: "length (requests (snd ?P)) \<le> 2" by simp
  from b f ts 1 2 3 show ?thesis by blast
qed

section \<open>Promise.all\<close>

lemma foldr_max_ge: "t \<le> foldr max xs (t::nat)" "x \<in> set xs \<Longrightarrow> x \<le> foldr max xs t"
  by (induction xs) (auto simp add: max_def)

lemma Promise_all_resolved:
  assumes "snd (Promise_all t es) = Inr vs"
  shows "\<forall>e \<in> set es. \<not> isl (snd (subscribe t e)) \<and> fst (subscribe t e) \<le> fst (Promise_all t es)"
    and "t \<le> fst (Promise_all t es)"
proof -
  let ?ps = "map (subscribe t) es"
  have none: "filter (\<lambda>p. isl (snd p)) ?ps = []"
    using assms by (auto simp add: Promise_all_def Let_def split: list.splits)
  then have eq: "Promise_all t es = (foldr max (map fst ?ps) t, Inr (map (\<lambda>p. projr (snd p)) ?ps))"
    by (simp add: Promise_all_def Let_def)
  show "t \<le> fst (Promise_all t es)" by (simp add: eq foldr_max_ge del: map_map)
  show "\<forall>e \<in> set es. \<not> isl (snd (subscribe t e)) \<and> fst (subscribe t e) \<le> fst (Promise_all t es)"
  proof
    fix e assume e: "e \<in> set es"
    then have "subscribe t e \<in> set ?ps" by simp
    moreover from none have "\<forall>p \<in> set ?ps. \<not> isl (snd p)"
      by (simp only: filter_empty_conv) 
    ultimately have 1: "\<not> isl (snd (subscribe t e))" by blast
    from e have "fst (subscribe t e) \<in> set (map fst ?ps)" by force
    then have "fst (subscribe t e) \<le> foldr max (map fst ?ps) t" by (rule foldr_max_ge)
    with 1 show "\<not> isl (snd (subscribe t e)) \<and> fst (subscribe t e) \<le> fst (Promise_all t es)"
      by (simp add: eq del: map_map)
  qed
qed

lemma Promise_all_rejects:
  assumes "e \<in> set es" and "isl (snd (subscribe t e))"
  shows "\<exists>f \<in> set es. \<exists>x. subscribe t f = (fst (Promise_all t es), Inl x)
           \<and> snd (Promise_all t es) = Inl x
           \<and> fst (Promise_all t es) \<le> fst (subscribe t e)"
proof -
  let ?ps = "map (subscribe t) es"
  let ?rs = "filter (\<lambda>p. isl (snd p)) ?ps"
  let ?m = "arg_min_list fst ?rs"
  from assms have in_rs: "subscribe t e \<in> set ?rs" by simp
  then have ne: "?rs \<noteq> []" by (metis empty_iff list.set(1))
  then obtain r rs where rs: "?rs = r # rs" by (cases ?rs) auto
  have eq: "Promise_all t es = (fst ?m, Inl (projl (snd ?m)))"
    unfolding Promise_all_def Let_def rs[symmetric] using rs by (simp add: rs)
  have m_in: "?m \<in> set ?rs" using ne by (rule arg_min_list_in)
  then have m_rej: "isl (snd ?m)" and m_ps: "?m \<in> set ?ps" by auto
  from m_ps obtain f where f: "f \<in> set es" "subscribe t f = ?m" by auto
  have "fst ?m = Min (fst ` set ?rs)" using ne by (rule f_arg_min_list_f)
  also have "\<dots> \<le> fst (subscribe t e)" using in_rs by (intro Min_le) auto
  finally have le: "fst ?m \<le> fst (subscribe t e)" .
  from m_rej have "?m = (fst ?m, Inl (projl (snd ?m)))"
    by (cases ?m) (auto simp add: isl_def)
  with f eq le show ?thesis by (intro bexI[of _ f] exI[of _ "projl (snd ?m)"]) simp_all
qed

section \<open>The calls of a sweep\<close>

lemma spawn_no_maintenance: "maintenance_calls (snd (spawn c wt b t)) = []"
  by (simp add: spawn_unfold maintenance_calls_def split: sum.splits)

lemma repeat_no_maintenance:
  "maintenance_calls (snd (submit_await_delay_repeat c wt bids t v)) = []"
proof (induction bids arbitrary: t v)
  case Nil
  then show ?case by (simp add: maintenance_calls_def)
next
  case (Cons b bs)
  have "maintenance_calls (snd (submit_await_delay_repeat c wt bs t' v')) = []" for t' v'
    by (rule Cons.IH)
  then show ?case using spawn_no_maintenance[of c wt b t]
    by (simp add: Let_def maintenance_calls_def split: sum.splits)
qed

lemma provisionType_no_maintenance:
  "maintenance_calls (snd (provisionType c wt pricing t)) = []"
proof (cases "queue_pendingTasks c t (provisionerId c) (workerType wt)")
  case (Pair d r)
  show ?thesis
  proof (cases r)
    case (Inl e)
    with Pair show ?thesis
      by (simp add: provisionType_rejected maintenance_calls_def)
  next
    case (Inr n)
    have h: "maintenance_calls (head_calls c wt t d n @ cs) = maintenance_calls cs" for cs
      by (simp add: head_calls_def maintenance_calls_def)
    from Pair Inr have "queue_pendingTasks c t (provisionerId c) (workerType wt) = (d, Inr n)"
      by simp
    from provisionType_resolved[OF this, of pricing] show ?thesis
      by (simp add: h repeat_no_maintenance split: if_splits)
         (simp_all add: head_calls_def maintenance_calls_def invoke_def)
  qed
qed

lemma provisionAll_no_maintenance:
  "maintenance_calls (snd (provisionAll c wts pricing t)) = []"
proof -
  have "maintenance_calls (concat xss) = concat (map maintenance_calls xss)" for xss
    by (induction xss) (simp_all add: maintenance_calls_def)
  then show ?thesis
    by (simp add: provisionAll_def Let_def comp_def provisionType_no_maintenance)
qed

lemma fetchAll_no_maintenance: "maintenance_calls (snd (fetchAll c t)) = []"
  by (simp add: fetchAll_def Let_def invoke_def maintenance_calls_def)

lemma maintenance_snd:
  "snd (maintenance c names t)
     = rougeKiller_call c names t # zombieKiller_call c t # ensureTags_call c t
       # map (createKeyPair_call c t) names"
  by (simp add: maintenance_def Let_def invoke_def rougeKiller_call_def zombieKiller_call_def
      ensureTags_call_def createKeyPair_call_def comp_def)

lemma maintenance_all_maintenance:
  "maintenance_calls (snd (maintenance c names t)) = snd (maintenance c names t)"
  unfolding maintenance_snd
  by (simp add: maintenance_calls_def invoke_def rougeKiller_call_def zombieKiller_call_def
      ensureTags_call_def createKeyPair_call_def)

lemma maintenance_what:
  "map what (snd (maintenance c names t))
     = RougeKiller names # ZombieKiller # EnsureTags # map CreateKeyPair names"
  unfolding maintenance_snd
  by (simp add: invoke_def rougeKiller_call_def zombieKiller_call_def
      ensureTags_call_def createKeyPair_call_def comp_def)

lemma maintenance_started: "\<forall>x \<in> set (snd (maintenance c names t)). started x = t"
  unfolding maintenance_snd
  by (simp add: invoke_def rougeKiller_call_def zombieKiller_call_def
      ensureTags_call_def createKeyPair_call_def)

text \<open>
  The first await resolves when the three fetches resolve, at the time of the last of them,
  and with nothing but the array that \<open>runAllProvisionersOnce\<close> takes apart.
\<close>

lemma fetchAll_resolves:
  assumes "snd (WorkerType_loadAll c t) = Inr wts" and "snd (awsPricing c t) = Inr pr"
      and "snd (awsManager_update c t) = Inr u"
  shows "fst (fetchAll c t)
           = (max (t + fst (WorkerType_loadAll c t))
                (max (t + fst (awsPricing c t)) (t + fst (awsManager_update c t))),
              Inr [WorkerTypes wts, Pricing pr, Updated])"
  using assms by (simp add: fetchAll_def Promise_all_def promise_map_def invoke_def Let_def max_def)

lemma fetchAll_shape:
  assumes "snd (fst (fetchAll c t)) = Inr res"
  shows "\<exists>wts pr. res = [WorkerTypes wts, Pricing pr, Updated]"
proof -
  obtain dl rl where l: "WorkerType_loadAll c t = (dl, rl)" by (cases "WorkerType_loadAll c t")
  obtain dp rp where p: "awsPricing c t = (dp, rp)" by (cases "awsPricing c t")
  obtain du ru where u: "awsManager_update c t = (du, ru)" by (cases "awsManager_update c t")
  from assms l p u show ?thesis
    by (cases rl; cases rp; cases ru)
       (auto simp add: fetchAll_def Promise_all_def promise_map_def invoke_def Let_def
          split: list.splits if_splits)
qed

lemma runAllProvisionersOnce_fetched:
  assumes "fst (fetchAll c t) = (t1, Inr [WorkerTypes wts, Pricing pr, Updated])"
  shows "runAllProvisionersOnce c t =
     (case snd (fst (maintenance c (map workerType wts) t1)) of
        Inl e \<Rightarrow> ((fst (fst (maintenance c (map workerType wts) t1)), Inl e),
                  snd (fetchAll c t) @ snd (maintenance c (map workerType wts) t1))
      | Inr m \<Rightarrow> (fst (provisionAll c wts pr (fst (fst (maintenance c (map workerType wts) t1)))),
                  snd (fetchAll c t) @ snd (maintenance c (map workerType wts) t1)
                  @ snd (provisionAll c wts pr (fst (fst (maintenance c (map workerType wts) t1))))))"
  using assms by (simp add: runAllProvisionersOnce_def thenP_def Let_def split: sum.splits)

lemma runAllProvisionersOnce_maintenance_calls:
  assumes "fst (fetchAll c t) = (t1, Inr [WorkerTypes wts, Pricing pr, Updated])"
  shows "maintenance_calls (snd (runAllProvisionersOnce c t))
           = snd (maintenance c (map workerType wts) t1)"
proof -
  have app: "maintenance_calls (xs @ ys) = maintenance_calls xs @ maintenance_calls ys" for xs ys
    by (simp add: maintenance_calls_def)
  show ?thesis
    by (simp add: runAllProvisionersOnce_fetched[OF assms] app fetchAll_no_maintenance
        maintenance_all_maintenance provisionAll_no_maintenance split: sum.splits)
qed

lemma maintenance_fst:
  "fst (maintenance c names t)
     = Promise_all t
         [Thenable (promise_of_call (rougeKiller_call c names t)),
          Thenable (promise_of_call (zombieKiller_call c t)),
          Thenable (promise_of_call (ensureTags_call c t)),
          Plain (KeyPairs (map (\<lambda>name. fst (invoke (CreateKeyPair name) t
                                 (awsManager_createKeyPair c t name))) names))]"
proof -
  have "promise_map (\<lambda>x. Finished) (fst (invoke opn t r)) = promise_of_call (hd (snd (invoke opn t r)))"
    for opn and r :: "unit response"
    by (cases r) (auto simp add: promise_map_def invoke_def promise_of_call_def split: sum.splits)
  then show ?thesis
    by (simp add: maintenance_def Let_def rougeKiller_call_def zombieKiller_call_def
      ensureTags_call_def comp_def)
qed

lemma maintenance_awaited:
  assumes x: "x \<in> set (snd (maintenance c names t))" and nk: "\<not> isCreateKeyPair (what x)"
  shows "(\<forall>m. snd (fst (maintenance c names t)) = Inr m \<longrightarrow>
            rejection x = None \<and> settled x \<le> fst (fst (maintenance c names t)))
       \<and> (\<forall>e. rejection x = Some e \<longrightarrow>
            isl (snd (fst (maintenance c names t)))
            \<and> fst (fst (maintenance c names t)) \<le> settled x)"
proof -
  let ?es = "[Thenable (promise_of_call (rougeKiller_call c names t)),
          Thenable (promise_of_call (zombieKiller_call c t)),
          Thenable (promise_of_call (ensureTags_call c t)),
          Plain (KeyPairs (map (\<lambda>name. fst (invoke (CreateKeyPair name) t
                                 (awsManager_createKeyPair c t name))) names))]"
  have "\<forall>y \<in> set (map (createKeyPair_call c t) names). isCreateKeyPair (what y)"
    by (simp add: createKeyPair_call_def invoke_def)
  with x nk have "x = rougeKiller_call c names t \<or> x = zombieKiller_call c t
      \<or> x = ensureTags_call c t"
    unfolding maintenance_snd by auto
  then have el: "Thenable (promise_of_call x) \<in> set ?es" by auto
  have sub: "subscribe t (Thenable (promise_of_call x)) = promise_of_call x" by simp
  show ?thesis
  proof (intro conjI allI impI)
    fix m assume "snd (fst (maintenance c names t)) = Inr m"
    then have "snd (Promise_all t ?es) = Inr m" by (simp only: maintenance_fst)
    from Promise_all_resolved(1)[OF this] el
    have "\<not> isl (snd (subscribe t (Thenable (promise_of_call x))))
        \<and> fst (subscribe t (Thenable (promise_of_call x))) \<le> fst (Promise_all t ?es)"
      by blast
    then have "\<not> isl (snd (promise_of_call x))"
      "fst (promise_of_call x) \<le> fst (Promise_all t ?es)"
      by simp_all
    then show "rejection x = None" "settled x \<le> fst (fst (maintenance c names t))"
      by (simp_all add: maintenance_fst promise_of_call_def split: option.splits)
  next
    fix e assume "rejection x = Some e"
    then have "isl (snd (subscribe t (Thenable (promise_of_call x))))"
      by (simp add: promise_of_call_def)
    from Promise_all_rejects[OF el this]
    have "isl (snd (Promise_all t ?es))
        \<and> fst (Promise_all t ?es) \<le> fst (subscribe t (Thenable (promise_of_call x)))"
      by force
    then have "isl (snd (Promise_all t ?es))"
      "fst (Promise_all t ?es) \<le> fst (promise_of_call x)"
      by simp_all
    then show "isl (snd (fst (maintenance c names t)))"
      "fst (fst (maintenance c names t)) \<le> settled x"
      by (simp_all add: maintenance_fst promise_of_call_def)
  qed
qed

section \<open>runAllProvisionersOnce: the fleet-wide maintenance\<close>

text \<open>
  C2 as stated fails. \<open>Promise.all\<close> rejects with the first rejection and does not wait
  for the other elements: here the rogue cleanup rejects after one millisecond, the sweep
  rejects at once, at time 2, and the zombie cleanup, still in flight, settles at time 101.
\<close>

theorem runAllProvisionersOnce_settles_early_counterexample:
  "fst (runAllProvisionersOnce (rogue_down []) 0) = (2, Inl (Err ''rogue''))
   \<and> map (\<lambda>x. (what x, settled x)) (maintenance_calls (snd (runAllProvisionersOnce (rogue_down []) 0)))
       = [(RougeKiller [], 2), (ZombieKiller, 101), (EnsureTags, 2)]"
  by (simp add: sweep_eval thenP_def invoke_def Let_def rogue_down_def calm_def maintenance_calls_def)

text \<open>
  The calls of \<open>createKeyPair\<close> are made, but their promises sit in an array that is an
  element of the array given to \<open>Promise.all\<close>, so nothing is subscribed to them: here
  every \<open>createKeyPair\<close> rejects, at time 1001, and the sweep has resolved at time 3.
\<close>

lemma createKeyPair_not_awaited:
  "fst (runAllProvisionersOnce (keypair_down [pool_ab]) 0) = (3, Inr [Undefined])
   \<and> map (\<lambda>x. (what x, settled x, rejection x))
        (maintenance_calls (snd (runAllProvisionersOnce (keypair_down [pool_ab]) 0)))
       = [(RougeKiller [''a''], 2, None), (ZombieKiller, 2, None), (EnsureTags, 2, None),
          (CreateKeyPair ''a'', 1001, Some (Err ''key pair''))]"
  by (simp add: sweep_eval provisionType_eval spawn_eval keypair_down_def example_defs
      maintenance_calls_def)

text \<open>
  C2, amended. When the three fetches have resolved, at time \<open>t1\<close>, the sweep starts all
  four maintenance operations at \<open>t1\<close>: the rogue cleanup for the names of the pools, the
  zombie cleanup, the tag hygiene, and one \<open>createKeyPair\<close> for each pool. For the rogue
  cleanup, the zombie cleanup and the tag hygiene: if the sweep resolves, each of them has
  resolved, no later than the sweep; and if one of them rejects, the sweep rejects, no later
  than that operation settles. Nothing is said about when the \<open>createKeyPair\<close> calls
  settle.
\<close>

theorem runAllProvisionersOnce_maintenance:
  assumes "fst (fetchAll c t) = (t1, Inr [WorkerTypes wts, Pricing pr, Updated])"
  shows "map what (maintenance_calls (snd (runAllProvisionersOnce c t)))
           = RougeKiller (map workerType wts) # ZombieKiller # EnsureTags
             # map CreateKeyPair (map workerType wts)
       \<and> (\<forall>x \<in> set (maintenance_calls (snd (runAllProvisionersOnce c t))).
             started x = t1
             \<and> (\<not> isCreateKeyPair (what x) \<longrightarrow>
                  (\<forall>v. snd (fst (runAllProvisionersOnce c t)) = Inr v \<longrightarrow>
                        rejection x = None \<and> settled x \<le> fst (fst (runAllProvisionersOnce c t)))
                  \<and> (\<forall>e. rejection x = Some e \<longrightarrow>
                        isl (snd (fst (runAllProvisionersOnce c t)))
                        \<and> fst (fst (runAllProvisionersOnce c t)) \<le> settled x)))"
proof -
  let ?M = "maintenance c (map workerType wts) t1"
  let ?S = "runAllProvisionersOnce c t"
  have mc: "maintenance_calls (snd ?S) = snd ?M"
    by (rule runAllProvisionersOnce_maintenance_calls[OF assms])
  have rej: "isl (snd (fst ?S)) \<and> fst (fst ?S) = fst (fst ?M)" if "isl (snd (fst ?M))"
    using that by (auto simp add: runAllProvisionersOnce_fetched[OF assms] isl_def)
  have res: "\<not> isl (snd (fst ?M)) \<and> fst (fst ?M) \<le> fst (fst ?S)" if "snd (fst ?S) = Inr v" for v
  proof (cases "snd (fst ?M)")
    case (Inl e)
    with that show ?thesis by (simp add: runAllProvisionersOnce_fetched[OF assms])
  next
    case (Inr m)
    with that have "snd (fst (provisionAll c wts pr (fst (fst ?M)))) = Inr v"
      by (simp add: runAllProvisionersOnce_fetched[OF assms])
    then have "fst (fst ?M) \<le> fst (fst (provisionAll c wts pr (fst (fst ?M))))"
      unfolding provisionAll_def Let_def fst_conv by (rule Promise_all_resolved(2))
    with Inr show ?thesis by (simp add: runAllProvisionersOnce_fetched[OF assms])
  qed
  have 1: "map what (maintenance_calls (snd ?S))
           = RougeKiller (map workerType wts) # ZombieKiller # EnsureTags
             # map CreateKeyPair (map workerType wts)"
    by (simp only: mc maintenance_what)
  have 2: "started x = t1" if "x \<in> set (snd ?M)" for x
    using that maintenance_started by blast
  have 3: "rejection x = None \<and> settled x \<le> fst (fst ?S)"
    if "x \<in> set (snd ?M)" "\<not> isCreateKeyPair (what x)" "snd (fst ?S) = Inr v" for x v
  proof -
    from res[OF that(3)] obtain m where m: "snd (fst ?M) = Inr m" and le: "fst (fst ?M) \<le> fst (fst ?S)"
      by (cases "snd (fst ?M)") auto
    from maintenance_awaited[OF that(1,2)] m
    have "rejection x = None" "settled x \<le> fst (fst ?M)" by blast+
    with le show ?thesis by simp
  qed
  have 4: "isl (snd (fst ?S)) \<and> fst (fst ?S) \<le> settled x"
    if "x \<in> set (snd ?M)" "\<not> isCreateKeyPair (what x)" "rejection x = Some e" for x e
  proof -
    from maintenance_awaited[OF that(1,2)] that(3)
    have "isl (snd (fst ?M))" "fst (fst ?M) \<le> settled x" by blast+
    with rej show ?thesis by simp
  qed
  from 1 2 3 4 show ?thesis unfolding mc by blast
qed

theorem runAllProvisionersOnce_maintenance_witness:
  "fst (fetchAll (calm [pool_ab] 0) 0) = (1, Inr [WorkerTypes [pool_ab], Pricing (), Updated])
   \<and> fst (runAllProvisionersOnce (calm [pool_ab] 0) 0) = (3, Inr [Undefined])
   \<and> map (\<lambda>x. (what x, started x, settled x, rejection x))
        (maintenance_calls (snd (runAllProvisionersOnce (calm [pool_ab] 0) 0)))
       = [(RougeKiller [''a''], 1, 2, None), (ZombieKiller, 1, 2, None),
          (EnsureTags, 1, 2, None), (CreateKeyPair ''a'', 1, 2, None)]
   \<and> settled \<lparr>what = ZombieKiller, started = 1, settled = 2, rejection = None\<rparr>
       \<le> fst (fst (runAllProvisionersOnce (calm [pool_ab] 0) 0))
   \<and> fst (fetchAll (rogue_down []) 0) = (1, Inr [WorkerTypes [], Pricing (), Updated])
   \<and> isl (snd (fst (runAllProvisionersOnce (rogue_down []) 0)))
   \<and> fst (fst (runAllProvisionersOnce (rogue_down []) 0)) \<le> 2"
proof -
  let ?S = "runAllProvisionersOnce (calm [pool_ab] 0) 0"
  let ?R = "runAllProvisionersOnce (rogue_down []) 0"
  let ?z = "\<lparr>what = ZombieKiller, started = 1, settled = 2, rejection = None\<rparr>"
  let ?r = "\<lparr>what = RougeKiller [], started = 1, settled = 2, rejection = Some (Err ''rogue'')\<rparr>"
  have h1: "fst (fetchAll (calm [pool_ab] 0) 0) = (1, Inr [WorkerTypes [pool_ab], Pricing (), Updated])"
    by (simp add: sweep_eval invoke_def Let_def calm_def)
  have h2: "fst (fetchAll (rogue_down []) 0) = (1, Inr [WorkerTypes [], Pricing (), Updated])"
    by (simp add: sweep_eval invoke_def Let_def calm_def rogue_down_def)
  have s: "fst ?S = (3, Inr [Undefined])"
    by (simp add: sweep_eval provisionType_eval spawn_eval example_defs)
  have cs: "map (\<lambda>x. (what x, started x, settled x, rejection x)) (maintenance_calls (snd ?S))
       = [(RougeKiller [''a''], 1, 2, None), (ZombieKiller, 1, 2, None),
          (EnsureTags, 1, 2, None), (CreateKeyPair ''a'', 1, 2, None)]"
    by (simp add: sweep_eval provisionType_eval spawn_eval example_defs maintenance_calls_def)
  have z: "?z \<in> set (maintenance_calls (snd ?S))" "\<not> isCreateKeyPair (what ?z)"
    by (simp_all add: sweep_eval provisionType_eval spawn_eval example_defs maintenance_calls_def)
  have r: "?r \<in> set (maintenance_calls (snd ?R))" "\<not> isCreateKeyPair (what ?r)"
    "rejection ?r = Some (Err ''rogue'')" "settled ?r = 2"
    by (simp_all add: sweep_eval thenP_def invoke_def Let_def rogue_down_def calm_def
        maintenance_calls_def)
  from runAllProvisionersOnce_maintenance[OF h1] z s
  have 1: "settled ?z \<le> fst (fst ?S)" by (metis snd_conv)
  from runAllProvisionersOnce_maintenance[OF h2] r(1,2,3)
  have "isl (snd (fst ?R)) \<and> fst (fst ?R) \<le> settled ?r" by blast
  with r(4) have 2: "isl (snd (fst ?R)) \<and> fst (fst ?R) \<le> 2" by simp
  from h1 h2 s cs 1 2 show ?thesis by blast
qed

section \<open>runAllProvisionersOnce: the fan-out over the pools\<close>

text \<open>
  C9. When the fetches have resolved and the maintenance has resolved, at time \<open>t2\<close>, the
  calls of the sweep are those of the fetches, those of the maintenance, and for every pool
  all the calls of its \<open>provisionType\<close>, invoked at \<open>t2\<close>: what one pool does is no
  function of how another pool's \<open>provisionType\<close> ends. If the \<open>provisionType\<close> of a
  pool rejects, the sweep rejects, with the error of a pool that rejected (the first to do
  so), no later than the rejection of that pool.
\<close>

theorem runAllProvisionersOnce_fan_out:
  assumes fetch: "fst (fetchAll c t) = (t1, Inr [WorkerTypes wts, Pricing pr, Updated])"
      and maint: "fst (maintenance c (map workerType wts) t1) = (t2, Inr m)"
  shows "snd (runAllProvisionersOnce c t)
           = snd (fetchAll c t) @ snd (maintenance c (map workerType wts) t1)
             @ concat (map (\<lambda>w. snd (provisionType c w pr t2)) wts)
       \<and> (\<forall>w \<in> set wts. isl (snd (fst (provisionType c w pr t2))) \<longrightarrow>
             (\<exists>w' \<in> set wts. \<exists>e.
                 fst (provisionType c w' pr t2) = (fst (fst (runAllProvisionersOnce c t)), Inl e)
                 \<and> snd (fst (runAllProvisionersOnce c t)) = Inl e
                 \<and> fst (fst (runAllProvisionersOnce c t)) \<le> fst (fst (provisionType c w pr t2))))"
proof -
  let ?S = "runAllProvisionersOnce c t"
  let ?es = "map (\<lambda>p. Thenable (fst p)) (map (\<lambda>w. provisionType c w pr t2) wts)"
  have S: "?S = (Promise_all t2 ?es,
                 snd (fetchAll c t) @ snd (maintenance c (map workerType wts) t1)
                 @ concat (map (\<lambda>w. snd (provisionType c w pr t2)) wts))"
    using maint by (simp add: runAllProvisionersOnce_fetched[OF fetch] provisionAll_def Let_def comp_def)
  have 2: "\<exists>w' \<in> set wts. \<exists>e.
                 fst (provisionType c w' pr t2) = (fst (fst ?S), Inl e)
                 \<and> snd (fst ?S) = Inl e
                 \<and> fst (fst ?S) \<le> fst (fst (provisionType c w pr t2))"
    if w: "w \<in> set wts" and r: "isl (snd (fst (provisionType c w pr t2)))" for w
  proof -
    have el: "Thenable (fst (provisionType c w pr t2)) \<in> set ?es" using w by auto
    have "isl (snd (subscribe t2 (Thenable (fst (provisionType c w pr t2)))))" using r by simp
    from Promise_all_rejects[OF el this]
    obtain f x where f: "f \<in> set ?es" "subscribe t2 f = (fst (Promise_all t2 ?es), Inl x)"
      "snd (Promise_all t2 ?es) = Inl x"
      "fst (Promise_all t2 ?es) \<le> fst (subscribe t2 (Thenable (fst (provisionType c w pr t2))))"
      by blast
    from f(1) obtain w' where w': "w' \<in> set wts" "f = Thenable (fst (provisionType c w' pr t2))"
      by auto
    with f show ?thesis by (intro bexI[of _ w'] exI[of _ x]) (simp_all add: S)
  qed
  from S 2 show ?thesis by simp
qed

lemma queue_a_down_run:
  "fst (fetchAll (queue_a_down pools_ab) 0) = (1, Inr [WorkerTypes pools_ab, Pricing (), Updated])"
  "fst (maintenance (queue_a_down pools_ab) (map workerType pools_ab) 1)
     = (2, Inr [Finished, Finished, Finished, KeyPairs [(2, Inr ()), (2, Inr ())]])"
  by (simp_all add: sweep_eval invoke_def Let_def calm_def queue_a_down_def pools_ab_def pool_def)

theorem runAllProvisionersOnce_fan_out_witness:
  "fst (provisionType (queue_a_down pools_ab) (pool ''a'' [bid_a]) () 2)
     = (5, Inl (Err ''queue down''))
   \<and> snd (fst (runAllProvisionersOnce (queue_a_down pools_ab) 0)) = Inl (Err ''queue down'')
   \<and> fst (fst (runAllProvisionersOnce (queue_a_down pools_ab) 0)) \<le> 5
   \<and> map (\<lambda>x. (what x, started x, rejection x))
        (requests (snd (runAllProvisionersOnce (queue_a_down pools_ab) 0)))
       = [(request_for (pool ''b'' [bid_b]) bid_b, 4, None)]"
proof -
  let ?c = "queue_a_down pools_ab"
  let ?S = "runAllProvisionersOnce ?c 0"
  let ?a = "pool ''a'' [bid_a]"
  let ?b = "pool ''b'' [bid_b]"
  have a: "fst (provisionType ?c ?a () 2) = (5, Inl (Err ''queue down''))"
    by (simp add: provisionType_eval spawn_eval example_defs queue_a_down_def)
  have b: "map (\<lambda>x. (what x, started x, rejection x)) (requests (snd (provisionType ?c ?b () 2)))
             = [(request_for ?b bid_b, 4, None)]"
    by (simp add: provisionType_eval spawn_eval example_defs queue_a_down_def requests_def
        request_for_def)
  have na: "requests (snd (provisionType ?c ?a () 2)) = []"
    by (simp add: provisionType_eval spawn_eval example_defs queue_a_down_def requests_def)
  have nf: "requests (snd (fetchAll ?c 0)) = []"
    "requests (snd (maintenance ?c (map workerType pools_ab) 1)) = []"
    by (simp_all add: sweep_eval invoke_def Let_def requests_def pools_ab_def)
  have app: "requests (xs @ ys) = requests xs @ requests ys" for xs ys
    by (simp add: requests_def)
  note T = runAllProvisionersOnce_fan_out[OF queue_a_down_run]
  from T have "snd ?S = snd (fetchAll ?c 0) @ snd (maintenance ?c (map workerType pools_ab) 1)
             @ concat (map (\<lambda>w. snd (provisionType ?c w () 2)) pools_ab)"
    by blast
  moreover have "concat (map (\<lambda>w. snd (provisionType ?c w () 2)) pools_ab)
      = snd (provisionType ?c ?a () 2) @ snd (provisionType ?c ?b () 2)"
    by (simp add: pools_ab_def)
  ultimately have "requests (snd ?S) = requests (snd (provisionType ?c ?b () 2))"
    by (simp only: app nf na append_Nil)
  with b have 1: "map (\<lambda>x. (what x, started x, rejection x)) (requests (snd ?S))
       = [(request_for ?b bid_b, 4, None)]"
    by simp
  have "?a \<in> set pools_ab" by (simp add: pools_ab_def)
  moreover have "isl (snd (fst (provisionType ?c ?a () 2)))" by (simp only: a snd_conv sum.disc)
  ultimately have "?a \<in> set pools_ab" "isl (snd (fst (provisionType ?c ?a () 2)))"
    by blast+
  with T obtain w' e where w': "w' \<in> set pools_ab"
      "fst (provisionType ?c w' () 2) = (fst (fst ?S), Inl e)" "snd (fst ?S) = Inl e"
      "fst (fst ?S) \<le> fst (fst (provisionType ?c ?a () 2))"
    by blast
  have bres: "\<not> isl (snd (fst (provisionType ?c ?b () 2)))"
    by (simp add: provisionType_eval spawn_eval example_defs queue_a_down_def)
  from w'(1) have "w' = ?a \<or> w' = ?b" by (simp add: pools_ab_def)
  with w'(2) bres have "w' = ?a" by auto
  with w' a have 2: "snd (fst ?S) = Inl (Err ''queue down'')" "fst (fst ?S) \<le> 5" by simp_all
  from a 1 2 show ?thesis by blast
qed

section \<open>The control loop: consecutive failures\<close>

lemma boot_run: "exec (boot 1000 False) [CallRun 0] = looping 0"
  by (simp add: loop_eval looping_def)

lemma failing_round:
  "k < 15 \<Longrightarrow>
     exec (looping k) [SweepSettles 0 (Inl e), DelayElapses 0 0] = looping (Suc k)"
  by (simp add: loop_eval looping_def)

lemma failing_rounds_tolerated:
  "k + n \<le> 15 \<Longrightarrow> exec (looping k) (failing_rounds n) = looping (k + n)"
proof (induction n arbitrary: k)
  case 0
  then show ?case by (simp add: failing_rounds_def exec_def)
next
  case (Suc n)
  then have k: "k < 15" and ih: "exec (looping (Suc k)) (failing_rounds n) = looping (Suc k + n)"
    by simp_all
  have "exec (looping k) (failing_rounds (Suc n))
          = exec (exec (looping k)
                   [SweepSettles 0 (Inl (Err ''sweep failed'')), DelayElapses 0 0])
              (failing_rounds n)"
    by (simp add: failing_rounds_def exec_def)
  with failing_round[OF k] ih show ?case by simp
qed

text \<open>
  A sweep in which the rogue cleanup rejects counts as a failure, and a sweep in which
  every collaborator resolves does not.
\<close>

lemma failed_sweep_counts:
  "sweepEvent (rogue_down []) 0 0 = SweepSettles 0 (Inl (Err ''rogue''))"
  "consecFail (self (step (looping 3) (sweepEvent (rogue_down []) 0 0))) = 4"
  "sweepEvent (calm [pool_ab] 0) 0 0 = SweepSettles 0 (Inr [Undefined])"
  "consecFail (self (step (looping 3) (sweepEvent (calm [pool_ab] 0) 0 0))) = 0"
  by (simp_all add: sweepEvent_def sweep_eval provisionType_eval spawn_eval example_defs
      rogue_down_def looping_def sweepSettles_def)

text \<open>
  C7. When the sweep awaited by an invocation of \<open>run()\<close> settles, the counter of
  consecutive failures becomes zero if the sweep resolved, and one more than it was if the
  sweep rejected. Every iteration begins with the check of the counter, before the sweep: when
  the delay has elapsed and the loop goes on, and likewise in the first iteration of
  \<open>run()\<close>, a counter above \<open>MAX_FAILURES\<close>, which is 15, makes \<open>run()\<close> reject with
  the error ``provisioner is failing a lot'', schedules the hard exit after 30000
  milliseconds (once where the error is thrown, once more in the handler that passes it on),
  and starts no sweep; otherwise the next sweep is started and the counter is left as it is.
\<close>

theorem run_failure_counter:
  assumes "i < length (invocations pr)"
  shows "(invocations pr ! i = AwaitSweep \<longrightarrow>
            consecFail (self (step pr (SweepSettles i (Inr v)))) = 0
            \<and> consecFail (self (step pr (SweepSettles i (Inl e)))) = consecFail (self pr) + 1)
       \<and> (invocations pr ! i = AwaitDelay \<and> keepRunning (self pr) \<and> \<not> PROVISION_ONCE pr \<longrightarrow>
            (if MAX_FAILURES < consecFail (self pr)
             then invocations (step pr (DelayElapses i t)) ! i
                    = RunRejected (Err ''provisioner is failing a lot'')
                  \<and> sweeps (step pr (DelayElapses i t)) = sweeps pr
                  \<and> exitTimers (step pr (DelayElapses i t)) = exitTimers pr @ [30000, 30000]
             else invocations (step pr (DelayElapses i t)) ! i = AwaitSweep
                  \<and> sweeps (step pr (DelayElapses i t)) = sweeps pr + 1
                  \<and> consecFail (self (step pr (DelayElapses i t))) = consecFail (self pr)))
       \<and> (MAX_FAILURES < consecFail (self pr) \<longrightarrow>
            last (invocations (step pr (CallRun t)))
              = RunRejected (Err ''provisioner is failing a lot'')
            \<and> sweeps (step pr (CallRun t)) = sweeps pr)
       \<and> MAX_FAILURES = 15"
  using assms
  by (simp add: sweepSettles_def delayElapses_def run_def iterate_def watchDog_touch_def
      watchDog_start_def watchDog_on_expired_def exitTimer_def MAX_KILL_TIME_def
      MAX_FAILURES_def Let_def)

theorem run_failure_counter_witness:
  "exec (boot 1000 False) (CallRun 0 # failing_rounds 15) = looping 15
   \<and> consecFail (self (looping 15)) = 15
   \<and> consecFail (self (step (looping 15) (SweepSettles 0 (Inr [])))) = 0
   \<and> consecFail (self (step (looping 15) (SweepSettles 0 (Inl (Err ''sweep failed''))))) = 16
   \<and> invocations (step (step (looping 15) (SweepSettles 0 (Inl (Err ''sweep failed''))))
                    (DelayElapses 0 0)) ! 0
       = RunRejected (Err ''provisioner is failing a lot'')
   \<and> sweeps (step (step (looping 15) (SweepSettles 0 (Inl (Err ''sweep failed''))))
               (DelayElapses 0 0)) = 16
   \<and> exitTimers (step (step (looping 15) (SweepSettles 0 (Inl (Err ''sweep failed''))))
                   (DelayElapses 0 0)) = [30000, 30000]
   \<and> last (invocations (step (step (looping 15) (SweepSettles 0 (Inl (Err ''sweep failed''))))
                          (CallRun 7)))
       = RunRejected (Err ''provisioner is failing a lot'')
   \<and> invocations (step (step (looping 14) (SweepSettles 0 (Inl (Err ''sweep failed''))))
                    (DelayElapses 0 0)) ! 0 = AwaitSweep
   \<and> sweeps (step (step (looping 14) (SweepSettles 0 (Inl (Err ''sweep failed''))))
               (DelayElapses 0 0)) = 16"
proof -
  let ?f = "step (looping 15) (SweepSettles 0 (Inl (Err ''sweep failed'')))"
  let ?g = "step (looping 14) (SweepSettles 0 (Inl (Err ''sweep failed'')))"
  have reach: "exec (boot 1000 False) (CallRun 0 # failing_rounds 15) = looping 15"
    using boot_run failing_rounds_tolerated[of 0 15] by (simp add: exec_def)
  have a: "0 < length (invocations (looping 15))" "invocations (looping 15) ! 0 = AwaitSweep"
    "consecFail (self (looping 15)) = 15"
    by (simp_all add: looping_def)
  have b: "0 < length (invocations ?f)" "invocations ?f ! 0 = AwaitDelay"
    "keepRunning (self ?f)" "\<not> PROVISION_ONCE ?f" "sweeps ?f = 16" "exitTimers ?f = []"
    by (simp_all add: looping_def sweepSettles_def)
  have g: "0 < length (invocations ?g)" "invocations ?g ! 0 = AwaitDelay"
    "keepRunning (self ?g)" "\<not> PROVISION_ONCE ?g" "sweeps ?g = 15"
    "\<not> MAX_FAILURES < consecFail (self ?g)"
    by (simp_all add: looping_def sweepSettles_def MAX_FAILURES_def)
  from run_failure_counter[OF a(1), of "[]" "Err ''sweep failed''", THEN conjunct1] a(2)
  have "consecFail (self (step (looping 15) (SweepSettles 0 (Inr [])))) = 0
      \<and> consecFail (self ?f) = consecFail (self (looping 15)) + 1"
    by blast
  with a(3) have 1: "consecFail (self (step (looping 15) (SweepSettles 0 (Inr [])))) = 0"
    "consecFail (self ?f) = 16"
    by simp_all
  then have c: "MAX_FAILURES < consecFail (self ?f)" by (simp add: MAX_FAILURES_def)
  from run_failure_counter[OF b(1), of _ _ 0, THEN conjunct2, THEN conjunct1] b(2,3,4)
  have "if MAX_FAILURES < consecFail (self ?f)
        then invocations (step ?f (DelayElapses 0 0)) ! 0
               = RunRejected (Err ''provisioner is failing a lot'')
             \<and> sweeps (step ?f (DelayElapses 0 0)) = sweeps ?f
             \<and> exitTimers (step ?f (DelayElapses 0 0)) = exitTimers ?f @ [30000, 30000]
        else invocations (step ?f (DelayElapses 0 0)) ! 0 = AwaitSweep
             \<and> sweeps (step ?f (DelayElapses 0 0)) = sweeps ?f + 1
             \<and> consecFail (self (step ?f (DelayElapses 0 0))) = consecFail (self ?f)"
    by blast
  with c b(5,6)
  have 2: "invocations (step ?f (DelayElapses 0 0)) ! 0
             = RunRejected (Err ''provisioner is failing a lot'')"
    "sweeps (step ?f (DelayElapses 0 0)) = 16"
    "exitTimers (step ?f (DelayElapses 0 0)) = [30000, 30000]"
    by simp_all
  from run_failure_counter[OF b(1), of _ _ 7, THEN conjunct2, THEN conjunct2, THEN conjunct1] c
  have 3: "last (invocations (step ?f (CallRun 7)))
             = RunRejected (Err ''provisioner is failing a lot'')"
    by blast
  from run_failure_counter[OF g(1), of _ _ 0, THEN conjunct2, THEN conjunct1] g(2,3,4)
  have "if MAX_FAILURES < consecFail (self ?g)
        then invocations (step ?g (DelayElapses 0 0)) ! 0
               = RunRejected (Err ''provisioner is failing a lot'')
             \<and> sweeps (step ?g (DelayElapses 0 0)) = sweeps ?g
             \<and> exitTimers (step ?g (DelayElapses 0 0)) = exitTimers ?g @ [30000, 30000]
        else invocations (step ?g (DelayElapses 0 0)) ! 0 = AwaitSweep
             \<and> sweeps (step ?g (DelayElapses 0 0)) = sweeps ?g + 1
             \<and> consecFail (self (step ?g (DelayElapses 0 0))) = consecFail (self ?g)"
    by blast
  with g(5,6)
  have 4: "invocations (step ?g (DelayElapses 0 0)) ! 0 = AwaitSweep"
    "sweeps (step ?g (DelayElapses 0 0)) = 16"
    by simp_all
  from reach a(3) 1 2 3 4 show ?thesis by blast
qed

section \<open>The control loop: stop, then run\<close>




end
